theory Spec2Isabelle
  imports Main
begin

section \<open>Data model of \<^verbatim>\<open>core/connection.js\<close>\<close>

text \<open>
  Connections and blocks are JavaScript objects that point at each other.  They are
  modelled as entries of two stores indexed by identifiers; a reference is an identifier,
  \<open>null\<close> is \<open>None\<close>.  Fields keep their source names; a trailing underscore of the
  source is written as a prime.
\<close>

type_synonym cid = nat
type_synonym bid = nat

text \<open>\<open>check_\<close>: list of compatible value types, null if all types are compatible.\<close>

type_synonym tags = "string list option"

text \<open>\<open>Blockly.INPUT_VALUE\<close>, \<open>OUTPUT_VALUE\<close>, \<open>NEXT_STATEMENT\<close>, \<open>PREVIOUS_STATEMENT\<close>.\<close>

datatype conn_type = INPUT_VALUE | OUTPUT_VALUE | NEXT_STATEMENT | PREVIOUS_STATEMENT

text \<open>
  Modelled from the spec: the serialized placeholder template (\<open>shadowDom_\<close>, an XML
  element produced and consumed by \<open>Blockly.Xml\<close>, which is not part of this file).  The
  spec treats it as an opaque blob used only to snapshot and respawn placeholder content.
  The model keeps what this file observes of a materialized block: whether it exposes an
  output or a previous connection, and that connection's compatibility tags.  Nested
  content of a placeholder is not modelled.
\<close>

datatype dom = DomOutput tags | DomPrevious tags | DomPlain

record connection =
  sourceBlock' :: bid
  type :: conn_type
  targetConnection :: "cid option"
  disposed :: bool
  check' :: tags
  shadowDom' :: "dom option"

text \<open>
  The part of \<open>Blockly.Block\<close> that this file reads.  \<open>workspace\<close> is \<open>True\<close> while the
  block belongs to a live workspace and \<open>False\<close> once the field is null; each entry of
  \<open>inputList\<close> is the \<open>connection\<close> field of one input (null for an input without one).
\<close>

record block =
  workspace :: bool
  parentBlock' :: "bid option"
  isShadow :: bool
  outputConnection :: "cid option"
  previousConnection :: "cid option"
  nextConnection :: "cid option"
  inputList :: "cid option list"

text \<open>
  A fired \<open>Blockly.Events.BlockMove\<close>: the moved block, the event group it was created in,
  the parent before the move and the parent recorded by \<open>recordNew\<close>.
\<close>

datatype event = BlockMove bid "nat option" "bid option" "bid option"

text \<open>
  A callback scheduled with \<open>setTimeout(..., Blockly.BUMP_DELAY)\<close> in \<open>connect_\<close>: the
  orphan block, the parent connection and the event group captured for the later bump.
\<close>

datatype bump = Bump bid cid "nat option"

text \<open>
  The global state: both object stores with their allocation counters, and the state of
  \<open>Blockly.Events\<close> (\<open>group\<close> is \<open>None\<close> for the empty group string, \<open>nextGroup\<close> feeds
  the unique identifiers made by \<open>setGroup(true)\<close>, \<open>enabled\<close> is \<open>isEnabled()\<close>).
\<close>

record state =
  conns :: "cid \<Rightarrow> connection"
  blocks :: "bid \<Rightarrow> block"
  nextConn :: cid
  nextBlock :: bid
  group :: "nat option"
  nextGroup :: nat
  recordUndo :: bool
  enabled :: bool
  fired :: "event list"
  timers :: "bump list"

text \<open>
  Every \<open>throw Error(...)\<close> of the file, the \<open>TypeError\<close> that JavaScript raises when a
  property of null is read, and the exhaustion of the fuel that bounds recursion.
\<close>

datatype error =
    SourceNotConnected
  | TargetNotConnected
  | OrphanNoOutput
  | OrphanNoPrevious
  | ChildNoOutputOrPrevious
  | NullConnections
  | TypeError
  | OutOfFuel

text \<open>
  A \<open>throw\<close> leaves the objects as mutated so far and nothing of the file catches it: a
  failed call yields the error together with the state at the throw.
\<close>

type_synonym failure = "error \<times> state"

text \<open>
  The connection checker of the workspace (\<open>Blockly.IConnectionChecker\<close>) is consumed, not
  implemented, by this file: \<open>canConnect(a, b, false)\<close> is a parameter of the model.
\<close>

type_synonym checker = "state \<Rightarrow> cid \<Rightarrow> cid \<Rightarrow> bool"

section \<open>Store updates and accessors\<close>

definition updConn :: "state \<Rightarrow> cid \<Rightarrow> (connection \<Rightarrow> connection) \<Rightarrow> state" where
  "updConn s c f = s\<lparr>conns := (conns s)(c := f (conns s c))\<rparr>"

definition updBlock :: "state \<Rightarrow> bid \<Rightarrow> (block \<Rightarrow> block) \<Rightarrow> state" where
  "updBlock s b f = s\<lparr>blocks := (blocks s)(b := f (blocks s b))\<rparr>"

definition getSourceBlock :: "state \<Rightarrow> cid \<Rightarrow> bid" where
  "getSourceBlock s c = sourceBlock' (conns s c)"

definition isSuperior :: "state \<Rightarrow> cid \<Rightarrow> bool" where
  "isSuperior s c \<longleftrightarrow> type (conns s c) = INPUT_VALUE \<or> type (conns s c) = NEXT_STATEMENT"

definition isConnected :: "state \<Rightarrow> cid \<Rightarrow> bool" where
  "isConnected s c \<longleftrightarrow> targetConnection (conns s c) \<noteq> None"

definition targetBlock :: "state \<Rightarrow> cid \<Rightarrow> bid option" where
  "targetBlock s c =
     (case targetConnection (conns s c) of
        Some t \<Rightarrow> Some (getSourceBlock s t)
      | None \<Rightarrow> None)"

text \<open>
  \<open>getConnectionChecker\<close> reads \<open>this.sourceBlock_.workspace.connectionChecker\<close>: it
  raises a \<open>TypeError\<close> when the workspace of the source block is null.
\<close>

definition hasConnectionChecker :: "state \<Rightarrow> cid \<Rightarrow> bool" where
  "hasConnectionChecker s c \<longleftrightarrow> workspace (blocks s (getSourceBlock s c))"

definition getCheck :: "state \<Rightarrow> cid \<Rightarrow> tags" where
  "getCheck s c = check' (conns s c)"

definition setShadowDom :: "state \<Rightarrow> cid \<Rightarrow> dom option \<Rightarrow> state" where
  "setShadowDom s c shadow = updConn s c (\<lambda>k. k\<lparr>shadowDom' := shadow\<rparr>)"

definition getShadowDom :: "state \<Rightarrow> cid \<Rightarrow> dom option" where
  "getShadowDom s c = shadowDom' (conns s c)"

section \<open>Collaborators outside this file\<close>

text \<open>
  Modelled from the spec: the event recorder (\<open>Blockly.Events\<close>).  \<open>setGroup(true)\<close>
  opens a group under a fresh identifier, \<open>setGroup(false)\<close> closes the current group; a
  move event is constructed per affected block, carries the before and after parent, and
  is fired once.
\<close>

definition Events_setGroup :: "bool \<Rightarrow> state \<Rightarrow> state" where
  "Events_setGroup b s =
     (if b then s\<lparr>group := Some (nextGroup s), nextGroup := Suc (nextGroup s)\<rparr>
      else s\<lparr>group := None\<rparr>)"

definition newBlockMove :: "state \<Rightarrow> bid \<Rightarrow> event" where
  "newBlockMove s b = BlockMove b (group s) (parentBlock' (blocks s b)) None"

fun recordNew :: "state \<Rightarrow> event \<Rightarrow> event" where
  "recordNew s (BlockMove b g old new) = BlockMove b g old (parentBlock' (blocks s b))"

definition Events_fire :: "state \<Rightarrow> event \<Rightarrow> state" where
  "Events_fire s ev = s\<lparr>fired := ev # fired s\<rparr>"

definition setTimeout :: "state \<Rightarrow> bump \<Rightarrow> state" where
  "setTimeout s t = s\<lparr>timers := t # timers s\<rparr>"

text \<open>
  Modelled from the spec: \<open>Block.setParent(block|none)\<close>, which reparents the block.
\<close>

definition Block_setParent :: "state \<Rightarrow> bid \<Rightarrow> bid option \<Rightarrow> state" where
  "Block_setParent s b p = updBlock s b (\<lambda>k. k\<lparr>parentBlock' := p\<rparr>)"

text \<open>
  Modelled from the spec: \<open>serializeBlock(block) -> template\<close> (\<open>Blockly.Xml.blockToDom\<close>)
  and \<open>materialize(template, workspace) -> block\<close> (\<open>Blockly.Xml.domToBlock\<close>).  The
  materialized block is a new placeholder block of the live workspace, with fresh
  identifiers for itself and for its connection.
\<close>

definition Xml_blockToDom :: "state \<Rightarrow> bid \<Rightarrow> dom" where
  "Xml_blockToDom s b =
     (case outputConnection (blocks s b) of
        Some oc \<Rightarrow> DomOutput (check' (conns s oc))
      | None \<Rightarrow>
          (case previousConnection (blocks s b) of
             Some pc \<Rightarrow> DomPrevious (check' (conns s pc))
           | None \<Rightarrow> DomPlain))"

definition newConnection :: "bid \<Rightarrow> conn_type \<Rightarrow> tags \<Rightarrow> connection" where
  "newConnection b t chk =
     \<lparr>sourceBlock' = b, type = t, targetConnection = None, disposed = False,
      check' = chk, shadowDom' = None\<rparr>"

definition newShadowBlock :: "cid option \<Rightarrow> cid option \<Rightarrow> block" where
  "newShadowBlock oc pc =
     \<lparr>workspace = True, parentBlock' = None, isShadow = True,
      outputConnection = oc, previousConnection = pc, nextConnection = None,
      inputList = []\<rparr>"

fun Xml_domToBlock :: "state \<Rightarrow> dom \<Rightarrow> state \<times> bid" where
  "Xml_domToBlock s (DomOutput chk) =
     (s\<lparr>conns := (conns s)(nextConn s := newConnection (nextBlock s) OUTPUT_VALUE chk),
        blocks := (blocks s)(nextBlock s := newShadowBlock (Some (nextConn s)) None),
        nextConn := Suc (nextConn s), nextBlock := Suc (nextBlock s)\<rparr>, nextBlock s)"
| "Xml_domToBlock s (DomPrevious chk) =
     (s\<lparr>conns := (conns s)(nextConn s := newConnection (nextBlock s) PREVIOUS_STATEMENT chk),
        blocks := (blocks s)(nextBlock s := newShadowBlock None (Some (nextConn s))),
        nextConn := Suc (nextConn s), nextBlock := Suc (nextBlock s)\<rparr>, nextBlock s)"
| "Xml_domToBlock s DomPlain =
     (s\<lparr>blocks := (blocks s)(nextBlock s := newShadowBlock None None),
        nextBlock := Suc (nextBlock s)\<rparr>, nextBlock s)"

text \<open>
  Modelled from the spec: \<open>Block.getConnections\<close>, the connections a block owns (its
  output, previous and next connection and the connections of its inputs).
\<close>

definition getConnections :: "state \<Rightarrow> bid \<Rightarrow> cid list" where
  "getConnections s b =
     (let k = blocks s b in
      List.map_filter (\<lambda>x. x)
        ([outputConnection k, previousConnection k, nextConnection k] @ inputList k))"

fun forEachE :: "('a \<Rightarrow> state \<Rightarrow> failure + state) \<Rightarrow> 'a list \<Rightarrow> state \<Rightarrow> failure + state" where
  "forEachE f [] s = Inr s"
| "forEachE f (x # xs) s = (case f x s of Inl e \<Rightarrow> Inl e | Inr s' \<Rightarrow> forEachE f xs s')"

section \<open>Pure helpers of the connect protocol\<close>

text \<open>\<open>Blockly.Connection.connectReciprocally_\<close>\<close>

definition connectReciprocally' :: "state \<Rightarrow> cid option \<Rightarrow> cid option \<Rightarrow> failure + state" where
  "connectReciprocally' s first second =
     (case first of
        None \<Rightarrow> Inl (NullConnections, s)
      | Some f \<Rightarrow>
          (case second of
             None \<Rightarrow> Inl (NullConnections, s)
           | Some g \<Rightarrow>
               Inr (updConn (updConn s f (\<lambda>k. k\<lparr>targetConnection := Some g\<rparr>))
                      g (\<lambda>k. k\<lparr>targetConnection := Some f\<rparr>))))"

text \<open>
  \<open>Blockly.Connection.singleConnection_\<close>: the loop over \<open>block.inputList\<close>, with the
  candidate found so far.  \<open>output.getConnectionChecker()\<close> is evaluated in every
  iteration, on the output connection of the orphan block.
\<close>

fun singleConnection_loop ::
  "checker \<Rightarrow> state \<Rightarrow> cid option \<Rightarrow> cid option list \<Rightarrow> cid option \<Rightarrow> error + cid option" where
  "singleConnection_loop chk s output [] connection = Inr connection"
| "singleConnection_loop chk s output (thisConnection # rest) connection =
     (case output of
        None \<Rightarrow> Inl TypeError
      | Some out \<Rightarrow>
          if \<not> hasConnectionChecker s out then Inl TypeError
          else
            (case thisConnection of
               None \<Rightarrow> singleConnection_loop chk s output rest connection
             | Some tc \<Rightarrow>
                 if type (conns s tc) = INPUT_VALUE \<and> chk s out tc then
                   (if connection \<noteq> None then Inr None
                    else singleConnection_loop chk s output rest (Some tc))
                 else singleConnection_loop chk s output rest connection))"

definition singleConnection' :: "checker \<Rightarrow> state \<Rightarrow> bid \<Rightarrow> bid \<Rightarrow> error + cid option" where
  "singleConnection' chk s blk orphanBlock =
     singleConnection_loop chk s (outputConnection (blocks s orphanBlock))
       (inputList (blocks s blk)) None"

text \<open>
  \<open>Blockly.Connection.lastConnectionInRow\<close>: the row may be cyclic, so the loop is
  bounded by fuel.
\<close>

fun lastConnectionInRow ::
  "checker \<Rightarrow> nat \<Rightarrow> state \<Rightarrow> bid \<Rightarrow> bid \<Rightarrow> error + cid option" where
  "lastConnectionInRow chk 0 s newBlock orphanBlock = Inl OutOfFuel"
| "lastConnectionInRow chk (Suc n) s newBlock orphanBlock =
     (case singleConnection' chk s newBlock orphanBlock of
        Inl e \<Rightarrow> Inl e
      | Inr None \<Rightarrow> Inr None
      | Inr (Some connection) \<Rightarrow>
          (case targetBlock s connection of
             None \<Rightarrow> Inr (Some connection)
           | Some nb \<Rightarrow>
               if isShadow (blocks s nb) then Inr (Some connection)
               else lastConnectionInRow chk n s nb orphanBlock))"

text \<open>
  The \<open>while (newBlock.nextConnection)\<close> loop of \<open>connect_\<close>: walks down the stack of the
  newly inserted block and returns the next connection at which the loop breaks (free, or
  holding a shadow block), or \<open>None\<close> when the last block has no next connection.
\<close>

fun lastNextConnection :: "nat \<Rightarrow> state \<Rightarrow> bid \<Rightarrow> error + cid option" where
  "lastNextConnection 0 s newBlock = Inl OutOfFuel"
| "lastNextConnection (Suc n) s newBlock =
     (case nextConnection (blocks s newBlock) of
        None \<Rightarrow> Inr None
      | Some nc \<Rightarrow>
          (case targetBlock s nc of
             None \<Rightarrow> Inr (Some nc)
           | Some nextBlk \<Rightarrow>
               if \<not> isShadow (blocks s nextBlk) then lastNextConnection n s nextBlk
               else Inr (Some nc)))"

text \<open>\<open>Blockly.Connection.prototype.disconnectInternal_\<close>\<close>

definition disconnectInternal' :: "state \<Rightarrow> cid \<Rightarrow> bid \<Rightarrow> bid \<Rightarrow> failure + state" where
  "disconnectInternal' s this parentBlock childBlock =
     (let event = (if enabled s then Some (newBlockMove s childBlock) else None) in
      case targetConnection (conns s this) of
        None \<Rightarrow> Inl (TypeError, s)
      | Some otherConnection \<Rightarrow>
          let s1 = updConn s otherConnection (\<lambda>k. k\<lparr>targetConnection := None\<rparr>);
              s2 = updConn s1 this (\<lambda>k. k\<lparr>targetConnection := None\<rparr>);
              s3 = Block_setParent s2 childBlock None
          in Inr (case event of None \<Rightarrow> s3 | Some ev \<Rightarrow> Events_fire s3 (recordNew s3 ev)))"

section \<open>The connect protocol\<close>

text \<open>
  \<open>connect\<close>, \<open>connect_\<close>, \<open>disconnect\<close>, \<open>respawnShadow_\<close> and \<open>dispose\<close> of
  \<open>Blockly.Connection\<close> call each other, directly and through \<open>Block.dispose\<close> and
  \<open>Block.unplug\<close>.  Each body is first written with the functions it calls as
  parameters (named as in the source); the recursion is then closed by \<open>exec\<close>, which is
  bounded by fuel: every call passes one unit less.
\<close>

text \<open>\<open>Blockly.Connection.prototype.connect\<close>\<close>

definition connect_body ::
  "checker \<Rightarrow> (state \<Rightarrow> cid \<Rightarrow> cid \<Rightarrow> failure + state) \<Rightarrow> state \<Rightarrow> cid \<Rightarrow> cid \<Rightarrow> failure + state" where
  "connect_body chk connect' s this otherConnection =
     (if targetConnection (conns s this) = Some otherConnection then Inr s
      else if \<not> hasConnectionChecker s this then Inl (TypeError, s)
      else if chk s this otherConnection then
        (let eventGroup = group s;
             s1 = (if eventGroup = None then Events_setGroup True s else s)
         in case (if isSuperior s1 this then connect' s1 this otherConnection
                  else connect' s1 otherConnection this) of
              Inl e \<Rightarrow> Inl e
            | Inr s2 \<Rightarrow> Inr (if eventGroup = None then Events_setGroup False s2 else s2))
      else Inr s)"

text \<open>
  Orphan resolution inside \<open>connect_\<close> (the body of \<open>if (parentConnection.isConnected())\<close>
  up to \<open>if (orphanBlock)\<close>): returns the state, the shadow DOM to restore and the orphan
  block that could not be reattached (\<open>None\<close> once \<open>orphanBlock = null\<close>).
\<close>

definition reattachOrphan ::
  "checker \<Rightarrow> nat
   \<Rightarrow> (state \<Rightarrow> cid \<Rightarrow> cid \<Rightarrow> failure + state)
   \<Rightarrow> (state \<Rightarrow> bid \<Rightarrow> failure + state)
   \<Rightarrow> state \<Rightarrow> cid \<Rightarrow> bid \<Rightarrow> bid \<Rightarrow> dom option
   \<Rightarrow> failure + (state \<times> dom option \<times> bid option)" where
  "reattachOrphan chk n connect Block_dispose s2 parentConnection childBlock orphanBlock shadowDom =
     (if isShadow (blocks s2 orphanBlock) then
        (case Block_dispose s2 orphanBlock of
           Inl e \<Rightarrow> Inl e
         | Inr s3 \<Rightarrow> Inr (s3, Some (Xml_blockToDom s2 orphanBlock), None))
      else if type (conns s2 parentConnection) = INPUT_VALUE then
        (case outputConnection (blocks s2 orphanBlock) of
           None \<Rightarrow> Inl (OrphanNoOutput, s2)
         | Some oc \<Rightarrow>
             (case lastConnectionInRow chk n s2 childBlock orphanBlock of
                Inl e \<Rightarrow> Inl (e, s2)
              | Inr None \<Rightarrow> Inr (s2, shadowDom, Some orphanBlock)
              | Inr (Some connection) \<Rightarrow>
                  (case connect s2 oc connection of
                     Inl e \<Rightarrow> Inl e
                   | Inr s3 \<Rightarrow> Inr (s3, shadowDom, None))))
      else if type (conns s2 parentConnection) = NEXT_STATEMENT then
        (case previousConnection (blocks s2 orphanBlock) of
           None \<Rightarrow> Inl (OrphanNoPrevious, s2)
         | Some pc \<Rightarrow>
             (case lastNextConnection n s2 childBlock of
                Inl e \<Rightarrow> Inl (e, s2)
              | Inr None \<Rightarrow> Inr (s2, shadowDom, Some orphanBlock)
              | Inr (Some nc) \<Rightarrow>
                  if \<not> workspace (blocks s2 orphanBlock) then Inl (TypeError, s2)
                  else if chk s2 pc nc then
                    (case connect s2 nc pc of
                       Inl e \<Rightarrow> Inl e
                     | Inr s3 \<Rightarrow> Inr (s3, shadowDom, None))
                  else Inr (s2, shadowDom, Some orphanBlock)))
      else Inr (s2, shadowDom, Some orphanBlock))"

text \<open>
  The rest of \<open>if (parentConnection.isConnected())\<close>: an orphan that could not be
  reattached is disconnected and its bump is scheduled; then the shadow DOM is restored.
\<close>

definition displaceOrphan ::
  "checker \<Rightarrow> nat
   \<Rightarrow> (state \<Rightarrow> cid \<Rightarrow> cid \<Rightarrow> failure + state)
   \<Rightarrow> (state \<Rightarrow> cid \<Rightarrow> failure + state)
   \<Rightarrow> (state \<Rightarrow> bid \<Rightarrow> failure + state)
   \<Rightarrow> state \<Rightarrow> cid \<Rightarrow> bid \<Rightarrow> failure + state" where
  "displaceOrphan chk n connect disconnect Block_dispose s1 parentConnection childBlock =
     (case targetBlock s1 parentConnection of
        None \<Rightarrow> Inr s1
      | Some orphanBlock \<Rightarrow>
          (let shadowDom = getShadowDom s1 parentConnection;
               s2 = setShadowDom s1 parentConnection None
           in
           case reattachOrphan chk n connect Block_dispose s2 parentConnection childBlock
                  orphanBlock shadowDom of
             Inl e \<Rightarrow> Inl e
           | Inr (s3, shadowDom2, orphan) \<Rightarrow>
               (case
                  (case orphan of
                     None \<Rightarrow> Inr s3
                   | Some ob \<Rightarrow>
                       (case disconnect s3 parentConnection of
                          Inl e \<Rightarrow> Inl e
                        | Inr s4 \<Rightarrow>
                            Inr (if recordUndo s4
                                 then setTimeout s4 (Bump ob parentConnection (group s4))
                                 else s4)))
                of
                  Inl e \<Rightarrow> Inl e
                | Inr s5 \<Rightarrow> Inr (setShadowDom s5 parentConnection shadowDom2))))"

text \<open>\<open>Blockly.Connection.prototype.connect_\<close>\<close>

definition connect'_body ::
  "checker \<Rightarrow> nat
   \<Rightarrow> (state \<Rightarrow> cid \<Rightarrow> cid \<Rightarrow> failure + state)
   \<Rightarrow> (state \<Rightarrow> cid \<Rightarrow> failure + state)
   \<Rightarrow> (state \<Rightarrow> bid \<Rightarrow> failure + state)
   \<Rightarrow> state \<Rightarrow> cid \<Rightarrow> cid \<Rightarrow> failure + state" where
  "connect'_body chk n connect disconnect Block_dispose s parentConnection childConnection =
     (let parentBlock = getSourceBlock s parentConnection;
          childBlock = getSourceBlock s childConnection
      in
      case (if isConnected s childConnection then disconnect s childConnection
            else Inr s) of
        Inl e \<Rightarrow> Inl e
      | Inr s1 \<Rightarrow>
          (case displaceOrphan chk n connect disconnect Block_dispose s1 parentConnection
                  childBlock of
             Inl e \<Rightarrow> Inl e
           | Inr s6 \<Rightarrow>
               (let event = (if enabled s6 then Some (newBlockMove s6 childBlock) else None) in
                case connectReciprocally' s6 (Some parentConnection) (Some childConnection) of
                  Inl e \<Rightarrow> Inl e
                | Inr s7 \<Rightarrow>
                    (let s8 = Block_setParent s7 childBlock (Some parentBlock) in
                     Inr (case event of
                            None \<Rightarrow> s8
                          | Some ev \<Rightarrow> Events_fire s8 (recordNew s8 ev))))))"

text \<open>\<open>Blockly.Connection.prototype.respawnShadow_\<close>\<close>

definition respawnShadow'_body ::
  "(state \<Rightarrow> cid \<Rightarrow> cid \<Rightarrow> failure + state) \<Rightarrow> state \<Rightarrow> cid \<Rightarrow> failure + state" where
  "respawnShadow'_body connect s this =
     (let parentBlock = getSourceBlock s this;
          shadow = getShadowDom s this
      in
      if workspace (blocks s parentBlock) \<and> shadow \<noteq> None \<and> recordUndo s then
        (case shadow of
           None \<Rightarrow> Inr s
         | Some d \<Rightarrow>
             (case Xml_domToBlock s d of
                (s1, blockShadow) \<Rightarrow>
                  (case outputConnection (blocks s1 blockShadow) of
                     Some oc \<Rightarrow> connect s1 this oc
                   | None \<Rightarrow>
                       (case previousConnection (blocks s1 blockShadow) of
                          Some pc \<Rightarrow> connect s1 this pc
                        | None \<Rightarrow> Inl (ChildNoOutputOrPrevious, s1)))))
      else Inr s)"

text \<open>\<open>Blockly.Connection.prototype.disconnect\<close>\<close>

definition disconnect_body ::
  "(state \<Rightarrow> cid \<Rightarrow> failure + state) \<Rightarrow> state \<Rightarrow> cid \<Rightarrow> failure + state" where
  "disconnect_body respawnShadow' s this =
     (case targetConnection (conns s this) of
        None \<Rightarrow> Inl (SourceNotConnected, s)
      | Some otherConnection \<Rightarrow>
          if targetConnection (conns s otherConnection) \<noteq> Some this
          then Inl (TargetNotConnected, s)
          else
            (let parentBlock = (if isSuperior s this then getSourceBlock s this
                                else getSourceBlock s otherConnection);
                 childBlock = (if isSuperior s this then getSourceBlock s otherConnection
                               else getSourceBlock s this);
                 parentConnection = (if isSuperior s this then this else otherConnection);
                 eventGroup = group s;
                 s1 = (if eventGroup = None then Events_setGroup True s else s)
             in
             case disconnectInternal' s1 this parentBlock childBlock of
               Inl e \<Rightarrow> Inl e
             | Inr s2 \<Rightarrow>
                 (case respawnShadow' s2 parentConnection of
                    Inl e \<Rightarrow> Inl e
                  | Inr s3 \<Rightarrow>
                      Inr (if eventGroup = None then Events_setGroup False s3 else s3))))"

text \<open>\<open>Blockly.Connection.prototype.dispose\<close>\<close>

definition dispose_body ::
  "(state \<Rightarrow> bid \<Rightarrow> failure + state) \<Rightarrow> (state \<Rightarrow> bid \<Rightarrow> failure + state)
   \<Rightarrow> state \<Rightarrow> cid \<Rightarrow> failure + state" where
  "dispose_body Block_dispose Block_unplug s this =
     (case
        (if isConnected s this then
           (let s1 = setShadowDom s this None in
            case targetBlock s1 this of
              None \<Rightarrow> Inl (TypeError, s1)
            | Some tb \<Rightarrow>
                if isShadow (blocks s1 tb) then Block_dispose s1 tb
                else Block_unplug s1 tb)
         else Inr s)
      of
        Inl e \<Rightarrow> Inl e
      | Inr s2 \<Rightarrow> Inr (updConn s2 this (\<lambda>k. k\<lparr>disposed := True\<rparr>)))"

text \<open>
  Modelled from the spec: \<open>Block.unplug()\<close>, which is not part of this file.  Unplugging
  is the full disconnect of the block from its parent: its output connection, or else its
  previous connection, is disconnected when linked.
\<close>

definition Block_unplug_body ::
  "(state \<Rightarrow> cid \<Rightarrow> failure + state) \<Rightarrow> state \<Rightarrow> bid \<Rightarrow> failure + state" where
  "Block_unplug_body disconnect s b =
     (case outputConnection (blocks s b) of
        Some oc \<Rightarrow> if isConnected s oc then disconnect s oc else Inr s
      | None \<Rightarrow>
          (case previousConnection (blocks s b) of
             Some pc \<Rightarrow> if isConnected s pc then disconnect s pc else Inr s
           | None \<Rightarrow> Inr s))"

text \<open>
  Modelled from the spec: \<open>Block.dispose(false)\<close>, which is not part of this file.
  Disposing a block destroys it outright and leaves no dangling references: the block is
  unplugged, leaves its workspace, and each of its connections is disposed.
\<close>

definition Block_dispose_body ::
  "(state \<Rightarrow> bid \<Rightarrow> failure + state) \<Rightarrow> (state \<Rightarrow> cid \<Rightarrow> failure + state)
   \<Rightarrow> state \<Rightarrow> bid \<Rightarrow> failure + state" where
  "Block_dispose_body Block_unplug dispose s b =
     (case Block_unplug s b of
        Inl e \<Rightarrow> Inl e
      | Inr s1 \<Rightarrow>
          forEachE (\<lambda>c t. dispose t c) (getConnections s1 b)
            (updBlock s1 b (\<lambda>k. k\<lparr>workspace := False\<rparr>)))"

text \<open>Closing the recursion: one constructor per function, \<open>exec\<close> dispatches.\<close>

datatype call =
    Connect cid cid
  | Connect' cid cid
  | Disconnect cid
  | RespawnShadow' cid
  | Dispose cid
  | Unplug bid
  | DisposeBlock bid

fun step :: "checker \<Rightarrow> nat \<Rightarrow> (call \<Rightarrow> state \<Rightarrow> failure + state) \<Rightarrow> call \<Rightarrow> state \<Rightarrow> failure + state" where
  "step chk n rec (Connect a b) s =
     connect_body chk (\<lambda>t x y. rec (Connect' x y) t) s a b"
| "step chk n rec (Connect' a b) s =
     connect'_body chk n (\<lambda>t x y. rec (Connect x y) t) (\<lambda>t x. rec (Disconnect x) t)
       (\<lambda>t x. rec (DisposeBlock x) t) s a b"
| "step chk n rec (Disconnect a) s =
     disconnect_body (\<lambda>t x. rec (RespawnShadow' x) t) s a"
| "step chk n rec (RespawnShadow' a) s =
     respawnShadow'_body (\<lambda>t x y. rec (Connect x y) t) s a"
| "step chk n rec (Dispose a) s =
     dispose_body (\<lambda>t x. rec (DisposeBlock x) t) (\<lambda>t x. rec (Unplug x) t) s a"
| "step chk n rec (Unplug b) s =
     Block_unplug_body (\<lambda>t x. rec (Disconnect x) t) s b"
| "step chk n rec (DisposeBlock b) s =
     Block_dispose_body (\<lambda>t x. rec (Unplug x) t) (\<lambda>t x. rec (Dispose x) t) s b"

primrec exec :: "checker \<Rightarrow> nat \<Rightarrow> call \<Rightarrow> state \<Rightarrow> failure + state" where
  "exec chk 0 = (\<lambda>c s. Inl (OutOfFuel, s))"
| "exec chk (Suc n) = step chk n (exec chk n)"

definition connect :: "checker \<Rightarrow> nat \<Rightarrow> state \<Rightarrow> cid \<Rightarrow> cid \<Rightarrow> failure + state" where
  "connect chk n s this otherConnection = exec chk n (Connect this otherConnection) s"

definition connect' :: "checker \<Rightarrow> nat \<Rightarrow> state \<Rightarrow> cid \<Rightarrow> cid \<Rightarrow> failure + state" where
  "connect' chk n s parentConnection childConnection =
     exec chk n (Connect' parentConnection childConnection) s"

definition disconnect :: "checker \<Rightarrow> nat \<Rightarrow> state \<Rightarrow> cid \<Rightarrow> failure + state" where
  "disconnect chk n s this = exec chk n (Disconnect this) s"

definition respawnShadow' :: "checker \<Rightarrow> nat \<Rightarrow> state \<Rightarrow> cid \<Rightarrow> failure + state" where
  "respawnShadow' chk n s this = exec chk n (RespawnShadow' this) s"

definition dispose :: "checker \<Rightarrow> nat \<Rightarrow> state \<Rightarrow> cid \<Rightarrow> failure + state" where
  "dispose chk n s this = exec chk n (Dispose this) s"

definition Block_unplug :: "checker \<Rightarrow> nat \<Rightarrow> state \<Rightarrow> bid \<Rightarrow> failure + state" where
  "Block_unplug chk n s b = exec chk n (Unplug b) s"

definition Block_dispose :: "checker \<Rightarrow> nat \<Rightarrow> state \<Rightarrow> bid \<Rightarrow> failure + state" where
  "Block_dispose chk n s b = exec chk n (DisposeBlock b) s"

section \<open>Compatibility accessors\<close>

text \<open>
  The argument of \<open>setCheck\<close>: \<open>null\<close>, one value type, or a list of value types.  In
  JavaScript \<open>null\<close> and the empty string are falsy; every array is truthy.
\<close>

datatype check_arg = CheckNull | CheckString string | CheckArray "string list"

fun truthy :: "check_arg \<Rightarrow> bool" where
  "truthy CheckNull = False"
| "truthy (CheckString t) = (t \<noteq> [])"
| "truthy (CheckArray ts) = True"

text \<open>\<open>if (!Array.isArray(check)) check = [check]\<close>\<close>

fun toArray :: "check_arg \<Rightarrow> string list" where
  "toArray (CheckArray ts) = ts"
| "toArray (CheckString t) = [t]"
| "toArray CheckNull = []"

text \<open>\<open>Blockly.Connection.prototype.onCheckChanged_\<close>\<close>

definition onCheckChanged' :: "checker \<Rightarrow> nat \<Rightarrow> state \<Rightarrow> cid \<Rightarrow> failure + state" where
  "onCheckChanged' chk n s this =
     (case targetConnection (conns s this) of
        None \<Rightarrow> Inr s
      | Some target \<Rightarrow>
          if \<not> hasConnectionChecker s this then Inl (TypeError, s)
          else if \<not> chk s this target then
            (case (if isSuperior s this then targetBlock s this
                   else Some (getSourceBlock s this)) of
               None \<Rightarrow> Inl (TypeError, s)
             | Some child \<Rightarrow> Block_unplug chk n s child)
          else Inr s)"

text \<open>\<open>Blockly.Connection.prototype.setCheck\<close>\<close>

definition setCheck :: "checker \<Rightarrow> nat \<Rightarrow> state \<Rightarrow> cid \<Rightarrow> check_arg \<Rightarrow> failure + state" where
  "setCheck chk n s this check =
     (if truthy check then
        onCheckChanged' chk n (updConn s this (\<lambda>k. k\<lparr>check' := Some (toArray check)\<rparr>)) this
      else Inr (updConn s this (\<lambda>k. k\<lparr>check' := None\<rparr>)))"

section \<open>Runs of the protocol\<close>



text \<open>
  Modelled from the spec: an instance of the external compatibility checker, after its
  reason codes \<open>SELF_CONNECTION\<close>, \<open>WRONG_TYPE\<close> and \<open>CHECKS_FAILED\<close>: two connections
  can connect when they belong to different blocks, have opposite kinds, and share a tag
  (or one of them accepts anything).
\<close>

fun opposite :: "conn_type \<Rightarrow> conn_type" where
  "opposite INPUT_VALUE = OUTPUT_VALUE"
| "opposite OUTPUT_VALUE = INPUT_VALUE"
| "opposite NEXT_STATEMENT = PREVIOUS_STATEMENT"
| "opposite PREVIOUS_STATEMENT = NEXT_STATEMENT"

fun compatibleTags :: "tags \<Rightarrow> tags \<Rightarrow> bool" where
  "compatibleTags (Some xs) (Some ys) = list_ex (\<lambda>x. x \<in> set ys) xs"
| "compatibleTags a b = True"

definition stdChecker :: checker where
  "stdChecker s a b \<longleftrightarrow>
     getSourceBlock s a \<noteq> getSourceBlock s b \<and>
     type (conns s b) = opposite (type (conns s a)) \<and>
     compatibleTags (check' (conns s a)) (check' (conns s b))"

text \<open>
  The event-group bracket of \<open>connect\<close> and \<open>disconnect\<close>: a group is opened at entry when
  none is open, and closed at exit by the call that opened it.
\<close>

definition beginGroup :: "state \<Rightarrow> state" where
  "beginGroup s = (if group s = None then Events_setGroup True s else s)"

definition endGroup :: "state \<Rightarrow> state \<Rightarrow> state" where
  "endGroup s t = (if group s = None then Events_setGroup False t else t)"

subsection \<open>Example workspaces\<close>

definition mkBlock ::
  "bool \<Rightarrow> cid option \<Rightarrow> cid option \<Rightarrow> cid option \<Rightarrow> cid option list \<Rightarrow> block" where
  "mkBlock sh oc pc nc ins =
     \<lparr>workspace = True, parentBlock' = None, isShadow = sh,
      outputConnection = oc, previousConnection = pc, nextConnection = nc,
      inputList = ins\<rparr>"

definition mkState :: "(cid \<Rightarrow> connection) \<Rightarrow> cid \<Rightarrow> (bid \<Rightarrow> block) \<Rightarrow> bid \<Rightarrow> state" where
  "mkState cs nc bs nb =
     \<lparr>conns = cs, blocks = bs, nextConn = nc, nextBlock = nb, group = None, nextGroup = 0,
      recordUndo = True, enabled = True, fired = [], timers = []\<rparr>"

text \<open>
  Two free value blocks, each with an output and one value input: block 0 owns
  connections 0 (output) and 1 (input), block 1 owns connections 2 (output) and 3 (input).
\<close>

definition twoValueBlocks :: state where
  "twoValueBlocks =
     mkState
       ((\<lambda>_. newConnection 0 OUTPUT_VALUE None)
          (1 := newConnection 0 INPUT_VALUE None,
           2 := newConnection 1 OUTPUT_VALUE None,
           3 := newConnection 1 INPUT_VALUE None)) 4
       ((\<lambda>_. mkBlock False (Some 0) None None [Some 1])
          (1 := mkBlock False (Some 2) None None [Some 3])) 2"


section \<open>Vocabulary of the properties\<close>

text \<open>
  The last steps of \<open>connect_\<close> as one state transformer: the reciprocal link, the
  reparenting of the child block and the move event (fired when events are enabled).
\<close>

definition attach :: "state \<Rightarrow> cid \<Rightarrow> cid \<Rightarrow> bid \<Rightarrow> bid \<Rightarrow> state" where
  "attach s p c parentBlock childBlock =
     (let s7 = updConn (updConn s p (\<lambda>k. k\<lparr>targetConnection := Some c\<rparr>))
                 c (\<lambda>k. k\<lparr>targetConnection := Some p\<rparr>);
          s8 = Block_setParent s7 childBlock (Some parentBlock)
      in if enabled s
         then Events_fire s8 (BlockMove childBlock (group s) (parentBlock' (blocks s childBlock))
                                (Some parentBlock))
         else s8)"

text \<open>
  The effect of \<open>disconnectInternal_\<close> on a linked connection: both target fields are
  cleared, the child block loses its parent and the move event is fired.
\<close>

definition detach :: "state \<Rightarrow> cid \<Rightarrow> cid \<Rightarrow> bid \<Rightarrow> state" where
  "detach s this other childBlock =
     (let s2 = updConn (updConn s other (\<lambda>k. k\<lparr>targetConnection := None\<rparr>))
                 this (\<lambda>k. k\<lparr>targetConnection := None\<rparr>);
          s3 = Block_setParent s2 childBlock None
      in if enabled s
         then Events_fire s3 (BlockMove childBlock (group s) (parentBlock' (blocks s childBlock)) None)
         else s3)"

text \<open>The event group an event was created in.\<close>

fun evGroup :: "event \<Rightarrow> nat option" where
  "evGroup (BlockMove b g old new) = g"

text \<open>
  \<open>frame s s'\<close>: what every operation of the protocol leaves alone.  Identifiers are only
  added; an existing connection keeps its block, kind and tags and stays disposed once
  disposed; an existing block keeps its connections and its placeholder flag and never
  returns to a workspace; and while an event group is open it stays the current group, no
  group is opened, and every event fired is created in it.
\<close>

definition frame :: "state \<Rightarrow> state \<Rightarrow> bool" where
  "frame s s' \<longleftrightarrow>
     nextConn s \<le> nextConn s' \<and> nextBlock s \<le> nextBlock s' \<and>
     recordUndo s' = recordUndo s \<and> enabled s' = enabled s \<and>
     (\<forall>c<nextConn s.
        sourceBlock' (conns s' c) = sourceBlock' (conns s c) \<and>
        type (conns s' c) = type (conns s c) \<and>
        check' (conns s' c) = check' (conns s c) \<and>
        (disposed (conns s c) \<longrightarrow> disposed (conns s' c))) \<and>
     (\<forall>b<nextBlock s.
        isShadow (blocks s' b) = isShadow (blocks s b) \<and>
        outputConnection (blocks s' b) = outputConnection (blocks s b) \<and>
        previousConnection (blocks s' b) = previousConnection (blocks s b) \<and>
        nextConnection (blocks s' b) = nextConnection (blocks s b) \<and>
        inputList (blocks s' b) = inputList (blocks s b) \<and>
        (workspace (blocks s' b) \<longrightarrow> workspace (blocks s b))) \<and>
     (group s \<noteq> None \<longrightarrow>
        group s' = group s \<and> nextGroup s' = nextGroup s \<and>
        (\<exists>new. fired s' = new @ fired s \<and> (\<forall>e\<in>set new. evGroup e = group s)))"

text \<open>A function of the protocol respects \<open>frame\<close> whenever it returns.\<close>

definition frames1 :: "(state \<Rightarrow> nat \<Rightarrow> failure + state) \<Rightarrow> bool" where
  "frames1 f \<longleftrightarrow> (\<forall>s x s'. f s x = Inr s' \<longrightarrow> frame s s')"

definition frames2 :: "(state \<Rightarrow> nat \<Rightarrow> nat \<Rightarrow> failure + state) \<Rightarrow> bool" where
  "frames2 f \<longleftrightarrow> (\<forall>s x y s'. f s x y = Inr s' \<longrightarrow> frame s s')"

text \<open>
  The events fired between two states, newest first, and the property that the events
  fired between \<open>s\<close> and \<open>s'\<close> extend the log of \<open>s\<close> and were all created in group \<open>g\<close>.
\<close>

definition newEvents :: "state \<Rightarrow> state \<Rightarrow> event list" where
  "newEvents s s' = take (length (fired s') - length (fired s)) (fired s')"

definition recordedIn :: "nat option \<Rightarrow> state \<Rightarrow> state \<Rightarrow> bool" where
  "recordedIn g s s' \<longleftrightarrow>
     fired s' = newEvents s s' @ fired s \<and> list_all (\<lambda>e. evGroup e = g) (newEvents s s')"

text \<open>
  A value block X (block 1, output 1) sits in the input 0 of block 0; block 2 is free and
  has an output 2 and one free value input 3.
\<close>

definition rowWorkspace :: state where
  "rowWorkspace =
     mkState
       ((\<lambda>_. newConnection 0 INPUT_VALUE None)
          (0 := (newConnection 0 INPUT_VALUE None)\<lparr>targetConnection := Some 1\<rparr>,
           1 := (newConnection 1 OUTPUT_VALUE None)\<lparr>targetConnection := Some 0\<rparr>,
           2 := newConnection 2 OUTPUT_VALUE None,
           3 := newConnection 2 INPUT_VALUE None)) 4
       ((\<lambda>_. mkBlock False None None None [Some 0])
          (1 := (mkBlock False (Some 1) None None [])\<lparr>parentBlock' := Some 0\<rparr>,
           2 := mkBlock False (Some 2) None None [Some 3])) 3"

text \<open>
  Well-formed stores.  Every link is between allocated connections, reciprocal, and between
  opposite kinds.
\<close>

definition wfLinks :: "state \<Rightarrow> bool" where
  "wfLinks s \<longleftrightarrow>
     (\<forall>a b. targetConnection (conns s a) = Some b \<longrightarrow>
        a < nextConn s \<and> targetConnection (conns s b) = Some a \<and>
        type (conns s b) = opposite (type (conns s a)))"

text \<open>
  Every allocated connection belongs to an allocated block, and an inferior connection is
  registered as the output or the previous connection of its block (a block with a
  previous connection has no output connection).
\<close>

definition wfConns :: "state \<Rightarrow> bool" where
  "wfConns s \<longleftrightarrow>
     (\<forall>c<nextConn s.
        sourceBlock' (conns s c) < nextBlock s \<and>
        (type (conns s c) = OUTPUT_VALUE \<longrightarrow>
           outputConnection (blocks s (sourceBlock' (conns s c))) = Some c) \<and>
        (type (conns s c) = PREVIOUS_STATEMENT \<longrightarrow>
           previousConnection (blocks s (sourceBlock' (conns s c))) = Some c \<and>
           outputConnection (blocks s (sourceBlock' (conns s c))) = None))"

text \<open>
  The connections registered on an allocated block are allocated, its own, and of the kind
  of their slot.
\<close>

definition wfSlot :: "state \<Rightarrow> bid \<Rightarrow> cid option \<Rightarrow> conn_type \<Rightarrow> bool" where
  "wfSlot s b slot t \<longleftrightarrow>
     (case slot of
        None \<Rightarrow> True
      | Some c \<Rightarrow> c < nextConn s \<and> sourceBlock' (conns s c) = b \<and> type (conns s c) = t)"

definition wfBlocks :: "state \<Rightarrow> bool" where
  "wfBlocks s \<longleftrightarrow>
     (\<forall>b<nextBlock s.
        wfSlot s b (outputConnection (blocks s b)) OUTPUT_VALUE \<and>
        wfSlot s b (previousConnection (blocks s b)) PREVIOUS_STATEMENT \<and>
        wfSlot s b (nextConnection (blocks s b)) NEXT_STATEMENT \<and>
        (\<forall>c. Some c \<in> set (inputList (blocks s b)) \<longrightarrow>
           c < nextConn s \<and> sourceBlock' (conns s c) = b \<and>
           (type (conns s c) = INPUT_VALUE \<or> type (conns s c) = NEXT_STATEMENT)))"

definition wfState :: "state \<Rightarrow> bool" where
  "wfState s \<longleftrightarrow> wfLinks s \<and> wfConns s \<and> wfBlocks s"

text \<open>
  What the proofs assume of the external checker: it accepts only connections of opposite
  kinds (reason code \<open>WRONG_TYPE\<close>), and its answer does not depend on the order of its
  two arguments.
\<close>

definition checkerOK :: "checker \<Rightarrow> bool" where
  "checkerOK chk \<longleftrightarrow>
     (\<forall>s a b. chk s a b \<longrightarrow> type (conns s b) = opposite (type (conns s a))) \<and>
     (\<forall>s a b. chk s a b = chk s b a)"

text \<open>
  Two states have the same structure when they agree on the allocation counters, on the
  block and kind of every connection and on the connections registered on every block.
\<close>

definition sameStructure :: "state \<Rightarrow> state \<Rightarrow> bool" where
  "sameStructure s t \<longleftrightarrow>
     nextConn t = nextConn s \<and> nextBlock t = nextBlock s \<and>
     (\<forall>c. sourceBlock' (conns t c) = sourceBlock' (conns s c) \<and>
          type (conns t c) = type (conns s c)) \<and>
     (\<forall>b. outputConnection (blocks t b) = outputConnection (blocks s b) \<and>
          previousConnection (blocks t b) = previousConnection (blocks s b) \<and>
          nextConnection (blocks t b) = nextConnection (blocks s b) \<and>
          inputList (blocks t b) = inputList (blocks s b))"

text \<open>Two states have the same links when every connection has the same target.\<close>

definition sameLinks :: "state \<Rightarrow> state \<Rightarrow> bool" where
  "sameLinks s t \<longleftrightarrow> (\<forall>c. targetConnection (conns t c) = targetConnection (conns s c))"

text \<open>
  Closed forms.  \<open>linkPair\<close> is \<open>connect\<close> on two connections that are both free: no
  block is displaced, so the call is the checker's gate around the attach step.
\<close>

definition linkPair :: "checker \<Rightarrow> state \<Rightarrow> cid \<Rightarrow> cid \<Rightarrow> failure + state" where
  "linkPair chk s a b =
     (if targetConnection (conns s a) = Some b then Inr s
      else if \<not> hasConnectionChecker s a then Inl (TypeError, s)
      else if chk s a b then
        Inr (endGroup s
               (if isSuperior s a
                then attach (beginGroup s) a b (getSourceBlock s a) (getSourceBlock s b)
                else attach (beginGroup s) b a (getSourceBlock s b) (getSourceBlock s a)))
      else Inr s)"

text \<open>
  \<open>respawned\<close> is \<open>respawnShadow_\<close> on a free connection: the template is materialized
  and handed to \<open>connect\<close> with the connection.
\<close>

definition respawned :: "checker \<Rightarrow> state \<Rightarrow> cid \<Rightarrow> failure + state" where
  "respawned chk s this =
     (if workspace (blocks s (getSourceBlock s this)) \<and> recordUndo s then
        (case getShadowDom s this of
           None \<Rightarrow> Inr s
         | Some DomPlain \<Rightarrow> Inl (ChildNoOutputOrPrevious, fst (Xml_domToBlock s DomPlain))
         | Some d \<Rightarrow> linkPair chk (fst (Xml_domToBlock s d)) this (nextConn s))
      else Inr s)"

text \<open>
  \<open>disconnected\<close> is \<open>disconnect\<close>: the checks, the event-group bracket, the unlinking and
  the respawn on the parent connection.
\<close>

definition disconnected :: "checker \<Rightarrow> state \<Rightarrow> cid \<Rightarrow> failure + state" where
  "disconnected chk s this =
     (case targetConnection (conns s this) of
        None \<Rightarrow> Inl (SourceNotConnected, s)
      | Some otherConnection \<Rightarrow>
          if targetConnection (conns s otherConnection) \<noteq> Some this
          then Inl (TargetNotConnected, s)
          else
            (case respawned chk
                    (detach (beginGroup s) this otherConnection
                       (if isSuperior s this then getSourceBlock s otherConnection
                        else getSourceBlock s this))
                    (if isSuperior s this then this else otherConnection) of
               Inl e \<Rightarrow> Inl e
             | Inr s3 \<Rightarrow> Inr (endGroup s s3)))"

text \<open>
  \<open>dframe s s'\<close>: what disconnecting and disposing leave alone.  No bump is scheduled, a
  free connection stays free, and a connection without a placeholder template stays
  without one.
\<close>

definition dframe :: "state \<Rightarrow> state \<Rightarrow> bool" where
  "dframe s s' \<longleftrightarrow>
     nextConn s \<le> nextConn s' \<and> timers s' = timers s \<and>
     (\<forall>x<nextConn s.
        (targetConnection (conns s x) = None \<longrightarrow> targetConnection (conns s' x) = None) \<and>
        (shadowDom' (conns s x) = None \<longrightarrow> shadowDom' (conns s' x) = None))"

text \<open>
  A function of the disconnect and dispose family is well-behaved: whenever it returns, it
  respects \<open>dframe\<close>, and it keeps a well-formed store well-formed when the checker is as
  assumed.
\<close>

definition dgood :: "checker \<Rightarrow> (state \<Rightarrow> nat \<Rightarrow> failure + state) \<Rightarrow> bool" where
  "dgood chk f \<longleftrightarrow>
     (\<forall>s x s'. f s x = Inr s' \<longrightarrow>
        dframe s s' \<and> (checkerOK chk \<longrightarrow> wfState s \<longrightarrow> wfState s'))"

text \<open>
  What step 1 of the attach sequence (the child connection is disconnected first) achieves
  between \<open>s\<close> and \<open>s1\<close> for the child connection \<open>c\<close>: the store stays well-formed, the
  child is free, connections not linked to it are untouched, and its former partner is
  free when it carries no template.
\<close>

definition preOK :: "state \<Rightarrow> cid \<Rightarrow> state \<Rightarrow> bool" where
  "preOK s c s1 \<longleftrightarrow>
     wfState s1 \<and> dframe s s1 \<and> frame s s1 \<and> targetConnection (conns s1 c) = None \<and>
     (\<forall>x. x < nextConn s \<longrightarrow> x \<noteq> c \<longrightarrow> targetConnection (conns s x) \<noteq> Some c \<longrightarrow>
           conns s1 x = conns s x) \<and>
     (\<forall>x. x < nextConn s \<longrightarrow> targetConnection (conns s x) = Some c \<longrightarrow>
           shadowDom' (conns s x) = None \<longrightarrow> targetConnection (conns s1 x) = None)"

text \<open>The state a call leaves behind, whether it returns or throws.\<close>

definition finalState :: "failure + state \<Rightarrow> state" where
  "finalState r = (case r of Inl (e, t) \<Rightarrow> t | Inr t \<Rightarrow> t)"

text \<open>A function of the protocol respects \<open>frame\<close> also when it throws.\<close>

definition throws1 :: "(state \<Rightarrow> nat \<Rightarrow> failure + state) \<Rightarrow> bool" where
  "throws1 f \<longleftrightarrow> (\<forall>s x e s'. f s x = Inl (e, s') \<longrightarrow> frame s s')"

definition throws2 :: "(state \<Rightarrow> nat \<Rightarrow> nat \<Rightarrow> failure + state) \<Rightarrow> bool" where
  "throws2 f \<longleftrightarrow> (\<forall>s x y e s'. f s x y = Inl (e, s') \<longrightarrow> frame s s')"

text \<open>
  \<open>ownGroup s s'\<close>: between \<open>s\<close> and \<open>s'\<close> exactly one group identifier was drawn, and every
  event fired was created in the group of that identifier.
\<close>

definition ownGroup :: "state \<Rightarrow> state \<Rightarrow> bool" where
  "ownGroup s s' \<longleftrightarrow>
     nextGroup s' = Suc (nextGroup s) \<and> recordedIn (Some (nextGroup s)) s s'"

text \<open>
  The two checks at the entry of \<open>disconnect\<close> pass: the connection has a target, and the
  target points back at it.
\<close>

definition linkedBack :: "state \<Rightarrow> cid \<Rightarrow> bool" where
  "linkedBack s a \<longleftrightarrow>
     (case targetConnection (conns s a) of
        None \<Rightarrow> False
      | Some q \<Rightarrow> targetConnection (conns s q) = Some a)"

text \<open>
  The input 0 of block 0 holds block 1 (output 1) and carries a placeholder template whose
  block has neither an output nor a previous connection; block 2 has one free value
  input 2.
\<close>

definition plainTemplateWorkspace :: state where
  "plainTemplateWorkspace =
     mkState
       ((\<lambda>_. newConnection 2 INPUT_VALUE None)
          (0 := (newConnection 0 INPUT_VALUE None)
                  \<lparr>targetConnection := Some 1, shadowDom' := Some DomPlain\<rparr>,
           1 := (newConnection 1 OUTPUT_VALUE None)\<lparr>targetConnection := Some 0\<rparr>)) 3
       ((\<lambda>_. mkBlock False None None None [Some 2])
          (0 := mkBlock False None None None [Some 0],
           1 := (mkBlock False (Some 1) None None [])\<lparr>parentBlock' := Some 0\<rparr>)) 3"

text \<open>
  Block 0 has a value input 0 that carries a placeholder template and holds block 1 by its
  output 1.
\<close>

definition templateWorkspace :: state where
  "templateWorkspace =
     mkState
       ((\<lambda>_. newConnection 0 INPUT_VALUE None)
          (0 := (newConnection 0 INPUT_VALUE None)
                  \<lparr>targetConnection := Some 1, shadowDom' := Some (DomOutput None)\<rparr>,
           1 := (newConnection 1 OUTPUT_VALUE None)\<lparr>targetConnection := Some 0\<rparr>)) 2
       ((\<lambda>_. mkBlock False None None None [Some 0])
          (1 := (mkBlock False (Some 1) None None [])\<lparr>parentBlock' := Some 0\<rparr>)) 2"


text \<open>
  The value input 0 of block 0 accepts \<open>Number\<close>, holds block 1 by its output 1, and
  carries a placeholder template whose output is tagged \<open>String\<close>.
\<close>

definition mismatchWorkspace :: state where
  "mismatchWorkspace =
     mkState
       ((\<lambda>_. newConnection 0 INPUT_VALUE None)
          (0 := (newConnection 0 INPUT_VALUE (Some [''Number'']))
                  \<lparr>targetConnection := Some 1,
                   shadowDom' := Some (DomOutput (Some [''String'']))\<rparr>,
           1 := (newConnection 1 OUTPUT_VALUE None)\<lparr>targetConnection := Some 0\<rparr>)) 2
       ((\<lambda>_. mkBlock False None None None [Some 0])
          (1 := (mkBlock False (Some 1) None None [])\<lparr>parentBlock' := Some 0\<rparr>)) 2"


text \<open>
  The value input 0 of block 0 accepts anything and holds block 1 by its output 1, which is
  tagged \<open>Number\<close>.
\<close>

definition taggedWorkspace :: state where
  "taggedWorkspace =
     mkState
       ((\<lambda>_. newConnection 0 INPUT_VALUE None)
          (0 := (newConnection 0 INPUT_VALUE None)\<lparr>targetConnection := Some 1\<rparr>,
           1 := (newConnection 1 OUTPUT_VALUE (Some [''Number'']))
                  \<lparr>targetConnection := Some 0\<rparr>)) 2
       ((\<lambda>_. mkBlock False None None None [Some 0])
          (1 := (mkBlock False (Some 1) None None [])\<lparr>parentBlock' := Some 0\<rparr>)) 2"


section \<open>Unfolding the recursion\<close>

lemma exec_eta:
  "(\<lambda>t x y. exec chk n (Connect x y) t) = connect chk n"
  "(\<lambda>t x y. exec chk n (Connect' x y) t) = connect' chk n"
  "(\<lambda>t x. exec chk n (Disconnect x) t) = disconnect chk n"
  "(\<lambda>t x. exec chk n (RespawnShadow' x) t) = respawnShadow' chk n"
  "(\<lambda>t x. exec chk n (Dispose x) t) = dispose chk n"
  "(\<lambda>t x. exec chk n (Unplug x) t) = Block_unplug chk n"
  "(\<lambda>t x. exec chk n (DisposeBlock x) t) = Block_dispose chk n"
  by (intro ext, simp add: connect_def connect'_def disconnect_def respawnShadow'_def
      dispose_def Block_unplug_def Block_dispose_def)+

lemma connect_Suc: "connect chk (Suc n) s a b = connect_body chk (connect' chk n) s a b"
  by (simp add: connect_def exec_eta)

lemma connect'_Suc:
  "connect' chk (Suc n) s a b =
     connect'_body chk n (connect chk n) (disconnect chk n) (Block_dispose chk n) s a b"
  by (simp add: connect'_def exec_eta)

lemma disconnect_Suc:
  "disconnect chk (Suc n) s a = disconnect_body (respawnShadow' chk n) s a"
  by (simp add: disconnect_def exec_eta)

lemma respawnShadow'_Suc:
  "respawnShadow' chk (Suc n) s a = respawnShadow'_body (connect chk n) s a"
  by (simp add: respawnShadow'_def exec_eta)

lemma dispose_Suc:
  "dispose chk (Suc n) s a = dispose_body (Block_dispose chk n) (Block_unplug chk n) s a"
  by (simp add: dispose_def exec_eta)

lemma Block_unplug_Suc:
  "Block_unplug chk (Suc n) s b = Block_unplug_body (disconnect chk n) s b"
  by (simp add: Block_unplug_def exec_eta)

lemma Block_dispose_Suc:
  "Block_dispose chk (Suc n) s b =
     Block_dispose_body (Block_unplug chk n) (dispose chk n) s b"
  by (simp add: Block_dispose_def exec_eta)

lemma zero_fuel:
  "connect chk 0 s a b = Inl (OutOfFuel, s)"
  "connect' chk 0 s a b = Inl (OutOfFuel, s)"
  "disconnect chk 0 s a = Inl (OutOfFuel, s)"
  "respawnShadow' chk 0 s a = Inl (OutOfFuel, s)"
  "dispose chk 0 s a = Inl (OutOfFuel, s)"
  "Block_unplug chk 0 s x = Inl (OutOfFuel, s)"
  "Block_dispose chk 0 s x = Inl (OutOfFuel, s)"
  by (simp_all add: connect_def connect'_def disconnect_def respawnShadow'_def dispose_def
      Block_dispose_def Block_unplug_def)

section \<open>Frame of the protocol\<close>

lemma frame_refl: "frame s s"
  by (simp add: frame_def)

lemma frame_trans:
  assumes st: "frame s t" and tu: "frame t u"
  shows "frame s u"
proof -
  have le: "nextConn s \<le> nextConn t" "nextBlock s \<le> nextBlock t"
    using st by (simp_all add: frame_def)
  have grp: "group s \<noteq> None \<longrightarrow>
        group u = group s \<and> nextGroup u = nextGroup s \<and>
        (\<exists>new. fired u = new @ fired s \<and> (\<forall>e\<in>set new. evGroup e = group s))"
  proof
    assume g: "group s \<noteq> None"
    with st obtain n1 where 1: "group t = group s" "nextGroup t = nextGroup s"
      "fired t = n1 @ fired s" "\<forall>e\<in>set n1. evGroup e = group s"
      by (auto simp add: frame_def)
    with g tu obtain n2 where 2: "group u = group t" "nextGroup u = nextGroup t"
      "fired u = n2 @ fired t" "\<forall>e\<in>set n2. evGroup e = group t"
      by (auto simp add: frame_def)
    show "group u = group s \<and> nextGroup u = nextGroup s \<and>
        (\<exists>new. fired u = new @ fired s \<and> (\<forall>e\<in>set new. evGroup e = group s))"
      using 1 2 by (intro conjI exI[of _ "n2 @ n1"]) auto
  qed
  have cs: "\<forall>c<nextConn s.
        sourceBlock' (conns u c) = sourceBlock' (conns s c) \<and>
        type (conns u c) = type (conns s c) \<and>
        check' (conns u c) = check' (conns s c) \<and>
        (disposed (conns s c) \<longrightarrow> disposed (conns u c))"
  proof (intro allI impI)
    fix c assume "c < nextConn s"
    then have "c < nextConn t" using le by simp
    with \<open>c < nextConn s\<close> st tu show "sourceBlock' (conns u c) = sourceBlock' (conns s c) \<and>
        type (conns u c) = type (conns s c) \<and>
        check' (conns u c) = check' (conns s c) \<and>
        (disposed (conns s c) \<longrightarrow> disposed (conns u c))"
      by (simp add: frame_def)
  qed
  have bs: "\<forall>b<nextBlock s.
        isShadow (blocks u b) = isShadow (blocks s b) \<and>
        outputConnection (blocks u b) = outputConnection (blocks s b) \<and>
        previousConnection (blocks u b) = previousConnection (blocks s b) \<and>
        nextConnection (blocks u b) = nextConnection (blocks s b) \<and>
        inputList (blocks u b) = inputList (blocks s b) \<and>
        (workspace (blocks u b) \<longrightarrow> workspace (blocks s b))"
  proof (intro allI impI)
    fix b assume "b < nextBlock s"
    then have "b < nextBlock t" using le by simp
    with \<open>b < nextBlock s\<close> st tu show "isShadow (blocks u b) = isShadow (blocks s b) \<and>
        outputConnection (blocks u b) = outputConnection (blocks s b) \<and>
        previousConnection (blocks u b) = previousConnection (blocks s b) \<and>
        nextConnection (blocks u b) = nextConnection (blocks s b) \<and>
        inputList (blocks u b) = inputList (blocks s b) \<and>
        (workspace (blocks u b) \<longrightarrow> workspace (blocks s b))"
      by (simp add: frame_def)
  qed
  have misc: "nextConn s \<le> nextConn u" "nextBlock s \<le> nextBlock u"
     "recordUndo u = recordUndo s" "enabled u = enabled s"
    using st tu by (simp_all add: frame_def)
  show ?thesis
    unfolding frame_def using misc cs bs grp by blast
qed

lemma disconnectInternal'_eq:
  "targetConnection (conns s this) = Some other \<Longrightarrow>
   disconnectInternal' s this pb cb = Inr (detach s this other cb)"
  by (simp add: disconnectInternal'_def detach_def Let_def newBlockMove_def Block_setParent_def
      updBlock_def updConn_def Events_fire_def)

lemma frame_setShadowDom: "frame s (setShadowDom s c d)"
  by (simp add: frame_def setShadowDom_def updConn_def)

lemma frame_detach: "frame s (detach s a b cb)"
  by (simp add: frame_def detach_def updConn_def Let_def Block_setParent_def updBlock_def Events_fire_def)

lemma frame_attach: "frame s (attach s p c pb cb)"
  by (simp add: frame_def attach_def updConn_def Let_def Block_setParent_def updBlock_def Events_fire_def)

lemma frame_setTimeout: "frame s (setTimeout s t)"
  by (simp add: frame_def setTimeout_def)

lemma frame_disposed: "frame s (updConn s c (\<lambda>k. k\<lparr>disposed := True\<rparr>))"
  by (simp add: frame_def updConn_def)

lemma frame_workspace: "frame s (updBlock s b (\<lambda>k. k\<lparr>workspace := False\<rparr>))"
  by (simp add: frame_def updBlock_def)

lemma frame_domToBlock: "frame s (fst (Xml_domToBlock s d))"
  by (cases d) (simp_all add: frame_def)

lemma frame_bracket: "frame (beginGroup s) t \<Longrightarrow> frame s (endGroup s t)"
  by (auto simp add: frame_def beginGroup_def endGroup_def Events_setGroup_def)

lemma isSuperior_beginGroup [simp]: "isSuperior (beginGroup s) c = isSuperior s c"
  by (simp add: isSuperior_def beginGroup_def Events_setGroup_def)

lemma connect_body_alt:
  "connect_body chk fc' s this otherConnection =
     (if targetConnection (conns s this) = Some otherConnection then Inr s
      else if \<not> hasConnectionChecker s this then Inl (TypeError, s)
      else if chk s this otherConnection then
        (case (if isSuperior s this then fc' (beginGroup s) this otherConnection
               else fc' (beginGroup s) otherConnection this) of
           Inl e \<Rightarrow> Inl e
         | Inr s2 \<Rightarrow> Inr (endGroup s s2))
      else Inr s)"
  using isSuperior_beginGroup[of s this]
  by (simp add: connect_body_def Let_def beginGroup_def endGroup_def split: sum.splits)

lemma connect'_body_alt:
  "connect'_body chk n fc fd fb s parentConnection childConnection =
     (case (if isConnected s childConnection then fd s childConnection else Inr s) of
        Inl e \<Rightarrow> Inl e
      | Inr s1 \<Rightarrow>
          (case displaceOrphan chk n fc fd fb s1 parentConnection
                  (getSourceBlock s childConnection) of
             Inl e \<Rightarrow> Inl e
           | Inr s6 \<Rightarrow>
               Inr (attach s6 parentConnection childConnection
                      (getSourceBlock s parentConnection) (getSourceBlock s childConnection))))"
  by (simp add: connect'_body_def Let_def attach_def connectReciprocally'_def newBlockMove_def
      Block_setParent_def updBlock_def updConn_def Events_fire_def split: sum.splits)

lemma disconnect_body_alt:
  "disconnect_body fr s this =
     (case targetConnection (conns s this) of
        None \<Rightarrow> Inl (SourceNotConnected, s)
      | Some otherConnection \<Rightarrow>
          if targetConnection (conns s otherConnection) \<noteq> Some this
          then Inl (TargetNotConnected, s)
          else
            (case fr
                    (detach (beginGroup s) this otherConnection
                       (if isSuperior s this then getSourceBlock s otherConnection
                        else getSourceBlock s this))
                    (if isSuperior s this then this else otherConnection) of
               Inl e \<Rightarrow> Inl e
             | Inr s3 \<Rightarrow> Inr (endGroup s s3)))"
proof -
  have "targetConnection (conns (beginGroup s) this) = targetConnection (conns s this)"
    by (simp add: beginGroup_def Events_setGroup_def)
  then show ?thesis
    by (simp add: disconnect_body_def Let_def disconnectInternal'_eq
        beginGroup_def[symmetric] endGroup_def[symmetric] split: option.splits sum.splits)
qed

lemma frames1D: "frames1 f \<Longrightarrow> f s x = Inr s' \<Longrightarrow> frame s s'"
  by (simp add: frames1_def)

lemma frames2D: "frames2 f \<Longrightarrow> f s x y = Inr s' \<Longrightarrow> frame s s'"
  by (simp add: frames2_def)

lemma connect_body_frame:
  assumes "frames2 fc'"
  shows "frames2 (connect_body chk fc')"
  unfolding frames2_def connect_body_alt
  by (auto split: if_splits sum.splits intro: frame_refl frame_bracket frames2D[OF assms])

lemma disconnect_body_frame:
  assumes "frames1 fr"
  shows "frames1 (disconnect_body fr)"
  unfolding frames1_def disconnect_body_alt
proof (intro allI impI)
  fix s x s'
  assume h: "(case targetConnection (conns s x) of
        None \<Rightarrow> Inl (SourceNotConnected, s)
      | Some otherConnection \<Rightarrow>
          if targetConnection (conns s otherConnection) \<noteq> Some x
          then Inl (TargetNotConnected, s)
          else
            (case fr
                    (detach (beginGroup s) x otherConnection
                       (if isSuperior s x then getSourceBlock s otherConnection
                        else getSourceBlock s x))
                    (if isSuperior s x then x else otherConnection) of
               Inl e \<Rightarrow> Inl e
             | Inr s3 \<Rightarrow> Inr (endGroup s s3))) = Inr s'"
  then obtain other s3 where
    r: "fr (detach (beginGroup s) x other
                       (if isSuperior s x then getSourceBlock s other
                        else getSourceBlock s x))
                    (if isSuperior s x then x else other) = Inr s3"
    and e: "s' = endGroup s s3"
    by (auto split: option.splits if_splits sum.splits)
  from frames1D[OF assms r] have "frame (beginGroup s) s3"
    using frame_detach frame_trans by blast
  then show "frame s s'" using e frame_bracket by simp
qed

lemma respawnShadow'_body_frame:
  assumes "frames2 fc"
  shows "frames1 (respawnShadow'_body fc)"
  unfolding frames1_def respawnShadow'_body_def Let_def
proof (intro allI impI)
  fix s x s'
  assume h: "(if workspace (blocks s (getSourceBlock s x)) \<and> getShadowDom s x \<noteq> None \<and> recordUndo s
        then case getShadowDom s x of None \<Rightarrow> Inr s
             | Some d \<Rightarrow>
                 (case Xml_domToBlock s d of
                    (s1, blockShadow) \<Rightarrow>
                      (case outputConnection (blocks s1 blockShadow) of
                         Some oc \<Rightarrow> fc s1 x oc
                       | None \<Rightarrow>
                           (case previousConnection (blocks s1 blockShadow) of
                              Some pc \<Rightarrow> fc s1 x pc
                            | None \<Rightarrow> Inl (ChildNoOutputOrPrevious, s1))))
        else Inr s) = Inr s'"
  show "frame s s'"
  proof (cases "workspace (blocks s (getSourceBlock s x)) \<and> getShadowDom s x \<noteq> None \<and> recordUndo s")
    case False
    with h show ?thesis by (auto simp add: frame_refl split: if_splits)
  next
    case True
    then obtain d where d: "getShadowDom s x = Some d" by auto
    obtain s1 b where sb: "Xml_domToBlock s d = (s1, b)" by (cases "Xml_domToBlock s d")
    have f1: "frame s s1" using frame_domToBlock[of s d] sb by simp
    from h True d sb obtain y where "fc s1 x y = Inr s'"
      by (auto split: option.splits)
    then have "frame s1 s'" by (rule frames2D[OF assms])
    with f1 show ?thesis by (rule frame_trans)
  qed
qed

lemma forEachE_frame:
  assumes "\<And>x s s'. f x s = Inr s' \<Longrightarrow> frame s s'"
  shows "forEachE f xs s = Inr s' \<Longrightarrow> frame s s'"
proof (induction xs arbitrary: s)
  case Nil
  then show ?case by (simp add: frame_refl)
next
  case (Cons x xs)
  then obtain s1 where 1: "f x s = Inr s1" and 2: "forEachE f xs s1 = Inr s'"
    by (auto split: sum.splits)
  from assms[OF 1] Cons.IH[OF 2] show ?case by (rule frame_trans)
qed

lemma Block_unplug_body_frame:
  assumes "frames1 fd"
  shows "frames1 (Block_unplug_body fd)"
  unfolding frames1_def Block_unplug_body_def
  by (auto split: option.splits if_splits intro: frame_refl frames1D[OF assms])

lemma dispose_body_frame:
  assumes "frames1 fb" "frames1 fu"
  shows "frames1 (dispose_body fb fu)"
  unfolding frames1_def dispose_body_def Let_def
proof (intro allI impI)
  fix s x s'
  assume h: "(case if isConnected s x
             then case targetBlock (setShadowDom s x None) x of None \<Rightarrow> Inl (TypeError, setShadowDom s x None)
                  | Some tb \<Rightarrow>
                      if isShadow (blocks (setShadowDom s x None) tb)
                      then fb (setShadowDom s x None) tb else fu (setShadowDom s x None) tb
             else Inr s of
        Inl e \<Rightarrow> Inl e | Inr s2 \<Rightarrow> Inr (updConn s2 x (\<lambda>k. k\<lparr>disposed := True\<rparr>))) = Inr s'"
  then obtain s2 where s2: "s' = updConn s2 x (\<lambda>k. k\<lparr>disposed := True\<rparr>)"
    and c: "s2 = s \<or> (\<exists>tb. fb (setShadowDom s x None) tb = Inr s2) \<or>
            (\<exists>tb. fu (setShadowDom s x None) tb = Inr s2)"
    by (auto split: sum.splits if_splits option.splits)
  have "frame s s2"
    using c frame_refl frame_trans[OF frame_setShadowDom] frames1D[OF assms(1)] frames1D[OF assms(2)]
    by blast
  then show "frame s s'"
    using s2 frame_disposed frame_trans by blast
qed

lemma Block_dispose_body_frame:
  assumes "frames1 fu" "frames1 fd"
  shows "frames1 (Block_dispose_body fu fd)"
  unfolding frames1_def Block_dispose_body_def
proof (intro allI impI)
  fix s x s'
  assume "(case fu s x of Inl e \<Rightarrow> Inl e
        | Inr s1 \<Rightarrow>
            forEachE (\<lambda>c t. fd t c) (getConnections s1 x)
             (updBlock s1 x (\<lambda>k. k\<lparr>workspace := False\<rparr>))) = Inr s'"
  then obtain s1 where 1: "fu s x = Inr s1"
    and 2: "forEachE (\<lambda>c t. fd t c) (getConnections s1 x)
             (updBlock s1 x (\<lambda>k. k\<lparr>workspace := False\<rparr>)) = Inr s'"
    by (auto split: sum.splits)
  have "frame (updBlock s1 x (\<lambda>k. k\<lparr>workspace := False\<rparr>)) s'"
    using 2 by (rule forEachE_frame[rotated]) (rule frames1D[OF assms(2)])
  then show "frame s s'"
    using frames1D[OF assms(1) 1] frame_workspace frame_trans by blast
qed

lemma reattachOrphan_frame:
  assumes "frames2 fc" "frames1 fb"
    and "reattachOrphan chk n fc fb s2 p cb ob sd = Inr (s3, sd2, orph)"
  shows "frame s2 s3"
  using assms(3) unfolding reattachOrphan_def
  by (auto split: if_splits sum.splits option.splits
      intro: frame_refl frames2D[OF assms(1)] frames1D[OF assms(2)])

lemma displaceOrphan_frame:
  assumes "frames2 fc" "frames1 fd" "frames1 fb"
    and "displaceOrphan chk n fc fd fb s1 p cb = Inr s6"
  shows "frame s1 s6"
proof (cases "targetBlock s1 p")
  case None
  with assms(4) show ?thesis by (simp add: displaceOrphan_def frame_refl)
next
  case (Some ob)
  let ?s2 = "setShadowDom s1 p None"
  from assms(4) Some obtain s3 sd2 orph s5 where
    r: "reattachOrphan chk n fc fb ?s2 p cb ob (getShadowDom s1 p) = Inr (s3, sd2, orph)"
    and d: "(case orph of None \<Rightarrow> Inr s3
             | Some ob \<Rightarrow> (case fd s3 p of Inl e \<Rightarrow> Inl e
                 | Inr s4 \<Rightarrow> Inr (if recordUndo s4
                                 then setTimeout s4 (Bump ob p (group s4)) else s4))) = Inr s5"
    and e: "s6 = setShadowDom s5 p sd2"
    by (auto simp add: displaceOrphan_def Let_def split: sum.splits prod.splits)
  have 1: "frame s1 s3"
    using reattachOrphan_frame[OF assms(1) assms(3) r] frame_setShadowDom frame_trans by blast
  have 2: "frame s3 s5"
  proof (cases orph)
    case None
    with d show ?thesis by (simp add: frame_refl)
  next
    case (Some ob')
    with d obtain s4 where 4: "fd s3 p = Inr s4"
      and 5: "s5 = (if recordUndo s4 then setTimeout s4 (Bump ob' p (group s4)) else s4)"
      by (auto split: sum.splits)
    have "frame s4 s5" unfolding 5 by (simp add: frame_refl frame_setTimeout)
    with frames1D[OF assms(2) 4] show ?thesis by (rule frame_trans)
  qed
  show ?thesis
    unfolding e using 1 2 frame_setShadowDom frame_trans by blast
qed

lemma connect'_body_frame:
  assumes "frames2 fc" "frames1 fd" "frames1 fb"
  shows "frames2 (connect'_body chk n fc fd fb)"
  unfolding frames2_def connect'_body_alt
proof (intro allI impI)
  fix s p c s'
  assume "(case if isConnected s c then fd s c else Inr s of Inl e \<Rightarrow> Inl e
        | Inr s1 \<Rightarrow>
            (case displaceOrphan chk n fc fd fb s1 p (getSourceBlock s c) of
               Inl e \<Rightarrow> Inl e
             | Inr s6 \<Rightarrow> Inr (attach s6 p c (getSourceBlock s p) (getSourceBlock s c)))) = Inr s'"
  then obtain s1 s6 where 1: "(if isConnected s c then fd s c else Inr s) = Inr s1"
    and 2: "displaceOrphan chk n fc fd fb s1 p (getSourceBlock s c) = Inr s6"
    and 3: "s' = attach s6 p c (getSourceBlock s p) (getSourceBlock s c)"
    by (auto split: sum.splits)
  have "frame s s1" using 1 frames1D[OF assms(2)] frame_refl by (auto split: if_splits)
  moreover have "frame s1 s6" by (rule displaceOrphan_frame[OF assms 2])
  ultimately show "frame s s'" unfolding 3 using frame_attach frame_trans by blast
qed

lemma exec_frame: "exec chk n c s = Inr s' \<Longrightarrow> frame s s'"
proof -
  have "frames2 (connect chk n) \<and> frames2 (connect' chk n) \<and> frames1 (disconnect chk n) \<and>
        frames1 (respawnShadow' chk n) \<and> frames1 (dispose chk n) \<and>
        frames1 (Block_unplug chk n) \<and> frames1 (Block_dispose chk n)"
  proof (induction n)
    case 0
    show ?case by (simp add: frames1_def frames2_def zero_fuel)
  next
    case (Suc n)
    have eqs: "connect chk (Suc n) = connect_body chk (connect' chk n)"
      "connect' chk (Suc n) = connect'_body chk n (connect chk n) (disconnect chk n) (Block_dispose chk n)"
      "disconnect chk (Suc n) = disconnect_body (respawnShadow' chk n)"
      "respawnShadow' chk (Suc n) = respawnShadow'_body (connect chk n)"
      "dispose chk (Suc n) = dispose_body (Block_dispose chk n) (Block_unplug chk n)"
      "Block_unplug chk (Suc n) = Block_unplug_body (disconnect chk n)"
      "Block_dispose chk (Suc n) = Block_dispose_body (Block_unplug chk n) (dispose chk n)"
      by (intro ext, simp add: connect_Suc connect'_Suc disconnect_Suc respawnShadow'_Suc
          dispose_Suc Block_unplug_Suc Block_dispose_Suc)+
    show ?case
      unfolding eqs using Suc
      by (intro conjI connect_body_frame connect'_body_frame disconnect_body_frame
          respawnShadow'_body_frame dispose_body_frame Block_unplug_body_frame
          Block_dispose_body_frame) simp_all
  qed
  then show "exec chk n c s = Inr s' \<Longrightarrow> frame s s'"
    by (cases c) (auto simp add: frames1_def frames2_def connect_def connect'_def disconnect_def
        respawnShadow'_def dispose_def Block_unplug_def Block_dispose_def)
qed

lemma recordedInI:
  "fired s' = new @ fired s \<Longrightarrow> \<forall>e\<in>set new. evGroup e = g \<Longrightarrow> recordedIn g s s'"
  by (simp add: recordedIn_def newEvents_def list_all_iff)

lemma frame_open_group:
  assumes "frame s s'" "group s = Some g"
  shows "group s' = Some g \<and> nextGroup s' = nextGroup s \<and> recordedIn (Some g) s s'"
  using assms by (auto simp add: frame_def intro: recordedInI)

lemma recordedIn_bracket:
  assumes "group s = None" "recordedIn g (beginGroup s) t"
  shows "recordedIn g s (endGroup s t)"
  using assms
  by (simp add: recordedIn_def newEvents_def beginGroup_def endGroup_def Events_setGroup_def)

lemma bracket_fresh_group:
  assumes "group s = None" "frame (beginGroup s) t"
  shows "group (endGroup s t) = None \<and> nextGroup (endGroup s t) = Suc (nextGroup s) \<and>
         recordedIn (Some (nextGroup s)) s (endGroup s t)"
proof -
  have b: "group (beginGroup s) = Some (nextGroup s)" "nextGroup (beginGroup s) = Suc (nextGroup s)"
    using assms(1) by (simp_all add: beginGroup_def Events_setGroup_def)
  from frame_open_group[OF assms(2) b(1)] b(2)
  have "nextGroup t = Suc (nextGroup s)" "recordedIn (Some (nextGroup s)) (beginGroup s) t"
    by simp_all
  then show ?thesis
    using assms(1) recordedIn_bracket[OF assms(1)]
    by (simp add: endGroup_def Events_setGroup_def)
qed

lemma disconnect_fresh_group:
  assumes c: "disconnect chk n s a = Inr s'" and None: "group s = None"
  shows "group s' = None \<and> nextGroup s' = Suc (nextGroup s) \<and>
         recordedIn (Some (nextGroup s)) s s'"
proof -
  obtain m where n: "n = Suc m"
    using c by (cases n) (simp_all add: zero_fuel)
  from c n have c': "disconnect_body (respawnShadow' chk m) s a = Inr s'"
    by (simp add: disconnect_Suc)
  obtain q where q: "targetConnection (conns s a) = Some q"
    using c' unfolding disconnect_body_alt by (cases "targetConnection (conns s a)") auto
  define cb where "cb = (if isSuperior s a then getSourceBlock s q else getSourceBlock s a)"
  define pc where "pc = (if isSuperior s a then a else q)"
  from c' q obtain t where
    r: "respawnShadow' chk m (detach (beginGroup s) a q cb) pc = Inr t" and e: "s' = endGroup s t"
    unfolding disconnect_body_alt cb_def pc_def
    by (simp split: if_splits sum.splits)
  have "frame (detach (beginGroup s) a q cb) t"
    using r unfolding respawnShadow'_def by (rule exec_frame)
  then have "frame (beginGroup s) t"
    using frame_detach frame_trans by blast
  from bracket_fresh_group[OF None this] show ?thesis unfolding e by simp
qed

section \<open>Well-formed stores\<close>

lemma wfConns_cong: "sameStructure s t \<Longrightarrow> wfConns t = wfConns s"
  by (simp add: sameStructure_def wfConns_def)

lemma wfSlot_cong: "sameStructure s t \<Longrightarrow> wfSlot t b x ty = wfSlot s b x ty"
  by (simp add: sameStructure_def wfSlot_def split: option.splits)

lemma wfBlocks_cong: "sameStructure s t \<Longrightarrow> wfBlocks t = wfBlocks s"
  by (simp add: wfBlocks_def wfSlot_cong) (simp add: sameStructure_def)

lemma wfLinks_cong: "sameStructure s t \<Longrightarrow> sameLinks s t \<Longrightarrow> wfLinks t = wfLinks s"
  by (simp add: sameStructure_def sameLinks_def wfLinks_def)

lemma wfState_cong: "sameStructure s t \<Longrightarrow> sameLinks s t \<Longrightarrow> wfState t = wfState s"
  by (simp add: wfState_def wfConns_cong wfBlocks_cong wfLinks_cong)

lemma opposite_opposite [simp]: "opposite (opposite t) = t"
  by (cases t) simp_all

lemma opposite_neq [simp]: "opposite t \<noteq> t" "t \<noteq> opposite t"
  by (cases t; simp)+

lemma attach_proj [simp]:
  "targetConnection (conns (attach s p c pb cb) x) =
     (if x = c then Some p else if x = p then Some c else targetConnection (conns s x))"
  "sourceBlock' (conns (attach s p c pb cb) x) = sourceBlock' (conns s x)"
  "type (conns (attach s p c pb cb) x) = type (conns s x)"
  "check' (conns (attach s p c pb cb) x) = check' (conns s x)"
  "disposed (conns (attach s p c pb cb) x) = disposed (conns s x)"
  "shadowDom' (conns (attach s p c pb cb) x) = shadowDom' (conns s x)"
  "parentBlock' (blocks (attach s p c pb cb) b) =
     (if b = cb then Some pb else parentBlock' (blocks s b))"
  "workspace (blocks (attach s p c pb cb) b) = workspace (blocks s b)"
  "isShadow (blocks (attach s p c pb cb) b) = isShadow (blocks s b)"
  "outputConnection (blocks (attach s p c pb cb) b) = outputConnection (blocks s b)"
  "previousConnection (blocks (attach s p c pb cb) b) = previousConnection (blocks s b)"
  "nextConnection (blocks (attach s p c pb cb) b) = nextConnection (blocks s b)"
  "inputList (blocks (attach s p c pb cb) b) = inputList (blocks s b)"
  "nextConn (attach s p c pb cb) = nextConn s"
  "nextBlock (attach s p c pb cb) = nextBlock s"
  "group (attach s p c pb cb) = group s"
  "nextGroup (attach s p c pb cb) = nextGroup s"
  "recordUndo (attach s p c pb cb) = recordUndo s"
  "enabled (attach s p c pb cb) = enabled s"
  "timers (attach s p c pb cb) = timers s"
  by (simp_all add: attach_def Let_def updConn_def Block_setParent_def updBlock_def Events_fire_def)

lemma detach_proj [simp]:
  "targetConnection (conns (detach s a b cb) x) =
     (if x = a \<or> x = b then None else targetConnection (conns s x))"
  "sourceBlock' (conns (detach s a b cb) x) = sourceBlock' (conns s x)"
  "type (conns (detach s a b cb) x) = type (conns s x)"
  "check' (conns (detach s a b cb) x) = check' (conns s x)"
  "disposed (conns (detach s a b cb) x) = disposed (conns s x)"
  "shadowDom' (conns (detach s a b cb) x) = shadowDom' (conns s x)"
  "parentBlock' (blocks (detach s a b cb) bl) =
     (if bl = cb then None else parentBlock' (blocks s bl))"
  "workspace (blocks (detach s a b cb) bl) = workspace (blocks s bl)"
  "isShadow (blocks (detach s a b cb) bl) = isShadow (blocks s bl)"
  "outputConnection (blocks (detach s a b cb) bl) = outputConnection (blocks s bl)"
  "previousConnection (blocks (detach s a b cb) bl) = previousConnection (blocks s bl)"
  "nextConnection (blocks (detach s a b cb) bl) = nextConnection (blocks s bl)"
  "inputList (blocks (detach s a b cb) bl) = inputList (blocks s bl)"
  "nextConn (detach s a b cb) = nextConn s"
  "nextBlock (detach s a b cb) = nextBlock s"
  "group (detach s a b cb) = group s"
  "nextGroup (detach s a b cb) = nextGroup s"
  "recordUndo (detach s a b cb) = recordUndo s"
  "enabled (detach s a b cb) = enabled s"
  "timers (detach s a b cb) = timers s"
  by (simp_all add: detach_def Let_def updConn_def Block_setParent_def updBlock_def Events_fire_def)

lemma sameStructure_refl [simp]: "sameStructure s s"
  by (simp add: sameStructure_def)

lemma sameStructure_simps [simp]:
  "sameStructure s (setShadowDom s c d)"
  "sameStructure s (Events_setGroup g s)"
  "sameStructure s (beginGroup s)"
  "sameStructure s (setTimeout s tm)"
  "sameStructure s (Events_fire s e)"
  "sameStructure s (Block_setParent s bl par)"
  "sameStructure s (updConn s c (\<lambda>k. k\<lparr>disposed := True\<rparr>))"
  "sameStructure s (updBlock s bl (\<lambda>k. k\<lparr>workspace := False\<rparr>))"
  "sameStructure s (attach s p c' pb cb)"
  "sameStructure s (detach s a b cb)"
  by (simp_all add: sameStructure_def setShadowDom_def updConn_def Events_setGroup_def
      beginGroup_def setTimeout_def Events_fire_def Block_setParent_def updBlock_def)

lemma sameLinks_simps [simp]:
  "sameLinks s s"
  "sameLinks s (setShadowDom s c d)"
  "sameLinks s (Events_setGroup g s)"
  "sameLinks s (beginGroup s)"
  "sameLinks s (setTimeout s tm)"
  "sameLinks s (Events_fire s e)"
  "sameLinks s (Block_setParent s bl par)"
  "sameLinks s (updConn s c (\<lambda>k. k\<lparr>disposed := True\<rparr>))"
  "sameLinks s (updBlock s bl (\<lambda>k. k\<lparr>workspace := False\<rparr>))"
  by (simp_all add: sameLinks_def setShadowDom_def updConn_def Events_setGroup_def
      beginGroup_def setTimeout_def Events_fire_def Block_setParent_def updBlock_def)

lemma wfState_simps [simp]:
  "wfState (setShadowDom s c d) = wfState s"
  "wfState (Events_setGroup g s) = wfState s"
  "wfState (beginGroup s) = wfState s"
  "wfState (setTimeout s tm) = wfState s"
  "wfState (Events_fire s e) = wfState s"
  "wfState (Block_setParent s bl par) = wfState s"
  "wfState (updConn s c (\<lambda>k. k\<lparr>disposed := True\<rparr>)) = wfState s"
  "wfState (updBlock s bl (\<lambda>k. k\<lparr>workspace := False\<rparr>)) = wfState s"
  by (rule wfState_cong; simp)+

lemma wfState_endGroup [simp]: "wfState (endGroup s0 s) = wfState s"
  by (simp add: endGroup_def)

lemma wfLinksD:
  assumes "wfLinks s" "targetConnection (conns s a) = Some b"
  shows "a < nextConn s" "b < nextConn s" "targetConnection (conns s b) = Some a"
    "type (conns s b) = opposite (type (conns s a))" "a \<noteq> b"
proof -
  from assms show 1: "a < nextConn s" and 2: "targetConnection (conns s b) = Some a"
    and 3: "type (conns s b) = opposite (type (conns s a))"
    unfolding wfLinks_def by blast+
  from assms(1) 2 show "b < nextConn s" unfolding wfLinks_def by blast
  from 3 show "a \<noteq> b" by auto
qed

lemma wfState_detach:
  assumes wf: "wfState s" and l: "targetConnection (conns s a) = Some b"
  shows "wfState (detach s a b cb)"
proof -
  have wl: "wfLinks s" using wf by (simp add: wfState_def)
  note r = wfLinksD[OF wl l]
  have "wfLinks (detach s a b cb)"
    unfolding wfLinks_def
  proof (intro allI impI)
    fix x y
    assume h: "targetConnection (conns (detach s a b cb) x) = Some y"
    then have x: "x \<noteq> a" "x \<noteq> b" and xy: "targetConnection (conns s x) = Some y"
      by (auto split: if_splits)
    note q = wfLinksD[OF wl xy]
    have y: "y \<noteq> a" "y \<noteq> b" using q(3) r(3) l x by auto
    show "x < nextConn (detach s a b cb) \<and>
          targetConnection (conns (detach s a b cb) y) = Some x \<and>
          type (conns (detach s a b cb) y) = opposite (type (conns (detach s a b cb) x))"
      using q y by simp
  qed
  moreover have "wfConns (detach s a b cb) = wfConns s" "wfBlocks (detach s a b cb) = wfBlocks s"
    by (rule wfConns_cong wfBlocks_cong; simp)+
  ultimately show ?thesis using wf by (simp add: wfState_def)
qed

lemma wfState_attach:
  assumes wf: "wfState s" and al: "p < nextConn s" "c < nextConn s"
    and un: "targetConnection (conns s p) = None" "targetConnection (conns s c) = None"
    and ty: "type (conns s c) = opposite (type (conns s p))"
  shows "wfState (attach s p c pb cb)"
proof -
  have wl: "wfLinks s" using wf by (simp add: wfState_def)
  have pc: "p \<noteq> c" using ty by auto
  have ty': "type (conns s p) = opposite (type (conns s c))" using ty by simp
  have "wfLinks (attach s p c pb cb)"
    unfolding wfLinks_def
  proof (intro allI impI)
    fix x y
    assume h: "targetConnection (conns (attach s p c pb cb) x) = Some y"
    show "x < nextConn (attach s p c pb cb) \<and>
          targetConnection (conns (attach s p c pb cb) y) = Some x \<and>
          type (conns (attach s p c pb cb) y) = opposite (type (conns (attach s p c pb cb) x))"
    proof (cases "x = c \<or> x = p")
      case True
      then show ?thesis using h al pc ty ty' by auto
    next
      case False
      with h have xy: "targetConnection (conns s x) = Some y" by simp
      note q = wfLinksD[OF wl xy]
      have "y \<noteq> p" "y \<noteq> c" using q(3) un by auto
      then show ?thesis using q False by simp
    qed
  qed
  moreover have "wfConns (attach s p c pb cb) = wfConns s" "wfBlocks (attach s p c pb cb) = wfBlocks s"
    by (rule wfConns_cong wfBlocks_cong; simp)+
  ultimately show ?thesis using wf by (simp add: wfState_def)
qed

lemma domToBlock_proj:
  "nextBlock (fst (Xml_domToBlock s d)) = Suc (nextBlock s)"
  "snd (Xml_domToBlock s d) = nextBlock s"
  "nextConn (fst (Xml_domToBlock s d)) = (if d = DomPlain then nextConn s else Suc (nextConn s))"
  "x \<noteq> nextConn s \<or> d = DomPlain \<Longrightarrow> conns (fst (Xml_domToBlock s d)) x = conns s x"
  "b \<noteq> nextBlock s \<Longrightarrow> blocks (fst (Xml_domToBlock s d)) b = blocks s b"
  "group (fst (Xml_domToBlock s d)) = group s"
  "nextGroup (fst (Xml_domToBlock s d)) = nextGroup s"
  "recordUndo (fst (Xml_domToBlock s d)) = recordUndo s"
  "enabled (fst (Xml_domToBlock s d)) = enabled s"
  "timers (fst (Xml_domToBlock s d)) = timers s"
  "fired (fst (Xml_domToBlock s d)) = fired s"
  by (cases d; simp)+

lemma domToBlock_new:
  "blocks (fst (Xml_domToBlock s d)) (nextBlock s) =
     newShadowBlock (case d of DomOutput t \<Rightarrow> Some (nextConn s) | _ \<Rightarrow> None)
                    (case d of DomPrevious t \<Rightarrow> Some (nextConn s) | _ \<Rightarrow> None)"
  "d = DomOutput tg \<Longrightarrow>
     conns (fst (Xml_domToBlock s d)) (nextConn s) = newConnection (nextBlock s) OUTPUT_VALUE tg"
  "d = DomPrevious tg \<Longrightarrow>
     conns (fst (Xml_domToBlock s d)) (nextConn s) = newConnection (nextBlock s) PREVIOUS_STATEMENT tg"
  by (cases d; simp)+

lemma wfState_domToBlock:
  assumes wf: "wfState s"
  shows "wfState (fst (Xml_domToBlock s d))"
proof -
  let ?t = "fst (Xml_domToBlock s d)"
  have wl: "wfLinks s" and wc: "wfConns s" and wb: "wfBlocks s"
    using wf by (simp_all add: wfState_def)
  have old: "\<And>x. x < nextConn s \<Longrightarrow> conns ?t x = conns s x"
    by (simp add: domToBlock_proj)
  have oldb: "\<And>b. b < nextBlock s \<Longrightarrow> blocks ?t b = blocks s b"
    by (simp add: domToBlock_proj)
  have newc: "d \<noteq> DomPlain \<Longrightarrow> targetConnection (conns ?t (nextConn s)) = None \<and>
      sourceBlock' (conns ?t (nextConn s)) = nextBlock s \<and>
      type (conns ?t (nextConn s)) = (case d of DomOutput t \<Rightarrow> OUTPUT_VALUE | _ \<Rightarrow> PREVIOUS_STATEMENT)"
    by (cases d) (simp_all add: newConnection_def)
  have nc: "nextConn s \<le> nextConn ?t" by (simp add: domToBlock_proj)
  have "wfLinks ?t"
    unfolding wfLinks_def
  proof (intro allI impI)
    fix x y
    assume h: "targetConnection (conns ?t x) = Some y"
    have "x < nextConn s"
    proof (rule ccontr)
      assume n: "\<not> x < nextConn s"
      show False
      proof (cases "x = nextConn s \<and> d \<noteq> DomPlain")
        case True
        with h newc show False by simp
      next
        case False
        then have "conns ?t x = conns s x" by (auto simp add: domToBlock_proj)
        with h wfLinksD(1)[OF wl] n show False by simp
      qed
    qed
    then have xy: "targetConnection (conns s x) = Some y" using h old by simp
    note q = wfLinksD[OF wl xy]
    show "x < nextConn ?t \<and> targetConnection (conns ?t y) = Some x \<and>
          type (conns ?t y) = opposite (type (conns ?t x))"
      using q old nc by simp
  qed
  moreover have "wfConns ?t"
    unfolding wfConns_def
  proof (intro allI impI)
    fix c assume c: "c < nextConn ?t"
    show "sourceBlock' (conns ?t c) < nextBlock ?t \<and>
        (type (conns ?t c) = OUTPUT_VALUE \<longrightarrow>
           outputConnection (blocks ?t (sourceBlock' (conns ?t c))) = Some c) \<and>
        (type (conns ?t c) = PREVIOUS_STATEMENT \<longrightarrow>
           previousConnection (blocks ?t (sourceBlock' (conns ?t c))) = Some c \<and>
           outputConnection (blocks ?t (sourceBlock' (conns ?t c))) = None)"
    proof (cases "c < nextConn s")
      case True
      with wc have 1: "sourceBlock' (conns s c) < nextBlock s \<and>
        (type (conns s c) = OUTPUT_VALUE \<longrightarrow>
           outputConnection (blocks s (sourceBlock' (conns s c))) = Some c) \<and>
        (type (conns s c) = PREVIOUS_STATEMENT \<longrightarrow>
           previousConnection (blocks s (sourceBlock' (conns s c))) = Some c \<and>
           outputConnection (blocks s (sourceBlock' (conns s c))) = None)"
        by (simp add: wfConns_def)
      then show ?thesis using old[OF True] oldb[of "sourceBlock' (conns s c)"]
        by (simp add: domToBlock_proj)
    next
      case False
      with c have e: "c = nextConn s" "d \<noteq> DomPlain"
        by (auto simp add: domToBlock_proj split: if_splits)
      then show ?thesis
        by (cases d) (simp_all add: domToBlock_new newConnection_def newShadowBlock_def
            domToBlock_proj)
    qed
  qed
  moreover have "wfBlocks ?t"
    unfolding wfBlocks_def
  proof (intro allI impI)
    fix b assume b: "b < nextBlock ?t"
    show "wfSlot ?t b (outputConnection (blocks ?t b)) OUTPUT_VALUE \<and>
        wfSlot ?t b (previousConnection (blocks ?t b)) PREVIOUS_STATEMENT \<and>
        wfSlot ?t b (nextConnection (blocks ?t b)) NEXT_STATEMENT \<and>
        (\<forall>c. Some c \<in> set (inputList (blocks ?t b)) \<longrightarrow>
           c < nextConn ?t \<and> sourceBlock' (conns ?t c) = b \<and>
           (type (conns ?t c) = INPUT_VALUE \<or> type (conns ?t c) = NEXT_STATEMENT))"
    proof (cases "b < nextBlock s")
      case True
      have sl: "\<And>x ty. wfSlot s b x ty \<Longrightarrow> wfSlot ?t b x ty"
        using old nc by (auto simp add: wfSlot_def split: option.splits)
      from wb True have 1: "wfSlot s b (outputConnection (blocks s b)) OUTPUT_VALUE \<and>
        wfSlot s b (previousConnection (blocks s b)) PREVIOUS_STATEMENT \<and>
        wfSlot s b (nextConnection (blocks s b)) NEXT_STATEMENT \<and>
        (\<forall>c. Some c \<in> set (inputList (blocks s b)) \<longrightarrow>
           c < nextConn s \<and> sourceBlock' (conns s c) = b \<and>
           (type (conns s c) = INPUT_VALUE \<or> type (conns s c) = NEXT_STATEMENT))"
        by (simp add: wfBlocks_def)
      show ?thesis
        unfolding oldb[OF True]
      proof (intro conjI allI impI)
        fix c assume "Some c \<in> set (inputList (blocks s b))"
        with 1 have 2: "c < nextConn s \<and> sourceBlock' (conns s c) = b \<and>
           (type (conns s c) = INPUT_VALUE \<or> type (conns s c) = NEXT_STATEMENT)" by blast
        then show "c < nextConn ?t" using nc by simp
        from 2 show "sourceBlock' (conns ?t c) = b" using old by simp
        from 2 show "type (conns ?t c) = INPUT_VALUE \<or> type (conns ?t c) = NEXT_STATEMENT"
          using old by simp
      qed (use 1 sl in blast)+
    next
      case False
      with b have e: "b = nextBlock s" by (simp add: domToBlock_proj)
      show ?thesis
        unfolding e
        by (cases d) (simp_all add: wfSlot_def newConnection_def newShadowBlock_def)
    qed
  qed
  ultimately show ?thesis by (simp add: wfState_def)
qed

section \<open>Closed forms of the straight-line calls\<close>

lemma getSourceBlock_beginGroup [simp]: "getSourceBlock (beginGroup s) c = getSourceBlock s c"
  by (simp add: getSourceBlock_def beginGroup_def Events_setGroup_def)

lemma isConnected_beginGroup [simp]: "isConnected (beginGroup s) c = isConnected s c"
  by (simp add: isConnected_def beginGroup_def Events_setGroup_def)

lemma connect'_unlinked:
  assumes "\<not> isConnected s c" "\<not> isConnected s p"
  shows "connect' chk (Suc n) s p c =
         Inr (attach s p c (getSourceBlock s p) (getSourceBlock s c))"
  using assms
  by (simp add: connect'_Suc connect'_body_alt displaceOrphan_def targetBlock_def isConnected_def)

lemma connect_unlinked:
  assumes "\<not> isConnected s a" "\<not> isConnected s b"
  shows "connect chk (Suc (Suc n)) s a b = linkPair chk s a b"
  using assms
  by (simp add: connect_Suc connect_body_alt linkPair_def connect'_unlinked)

lemma connect_unlinked_result:
  assumes "connect chk n s a b = Inr s'" "\<not> isConnected s a" "\<not> isConnected s b"
  shows "linkPair chk s a b = Inr s'"
proof (cases n)
  case 0
  with assms show ?thesis by (simp add: zero_fuel)
next
  case (Suc m)
  show ?thesis
  proof (cases m)
    case 0
    with assms Suc show ?thesis
      by (simp add: connect_Suc connect_body_alt linkPair_def zero_fuel split: if_splits)
  next
    case (Suc k)
    with assms \<open>n = Suc m\<close> show ?thesis by (simp add: connect_unlinked)
  qed
qed

lemma domToBlock_unlinked:
  assumes "\<not> isConnected s p" "d \<noteq> DomPlain"
  shows "\<not> isConnected (fst (Xml_domToBlock s d)) p"
    "\<not> isConnected (fst (Xml_domToBlock s d)) (nextConn s)"
  using assms by (cases d; simp add: isConnected_def newConnection_def)+

lemma respawnShadow'_body_closed:
  assumes "\<And>t x y. \<not> isConnected t x \<Longrightarrow> \<not> isConnected t y \<Longrightarrow> fc t x y = linkPair chk t x y"
    and "\<not> isConnected s p"
  shows "respawnShadow'_body fc s p = respawned chk s p"
proof (cases "getShadowDom s p")
  case None
  then show ?thesis by (simp add: respawnShadow'_body_def respawned_def)
next
  case (Some d)
  show ?thesis
  proof (cases d)
    case DomPlain
    with Some show ?thesis
      by (simp add: respawnShadow'_body_def respawned_def newShadowBlock_def)
  next
    case (DomOutput tg)
    have "fc (fst (Xml_domToBlock s d)) p (nextConn s) =
          linkPair chk (fst (Xml_domToBlock s d)) p (nextConn s)"
      using domToBlock_unlinked[OF assms(2), of d] DomOutput by (intro assms(1)) simp_all
    with Some DomOutput show ?thesis
      by (simp add: respawnShadow'_body_def respawned_def newShadowBlock_def)
  next
    case (DomPrevious tg)
    have "fc (fst (Xml_domToBlock s d)) p (nextConn s) =
          linkPair chk (fst (Xml_domToBlock s d)) p (nextConn s)"
      using domToBlock_unlinked[OF assms(2), of d] DomPrevious by (intro assms(1)) simp_all
    with Some DomPrevious show ?thesis
      by (simp add: respawnShadow'_body_def respawned_def newShadowBlock_def)
  qed
qed

lemma respawnShadow'_unlinked:
  assumes "\<not> isConnected s p"
  shows "respawnShadow' chk (Suc (Suc (Suc n))) s p = respawned chk s p"
  unfolding respawnShadow'_Suc
  by (rule respawnShadow'_body_closed[OF connect_unlinked assms])

lemma respawnShadow'_unlinked_result:
  assumes r: "respawnShadow' chk n s p = Inr s'" and u: "\<not> isConnected s p"
  shows "respawned chk s p = Inr s'"
proof -
  obtain m where n: "n = Suc m" using r by (cases n) (simp_all add: zero_fuel)
  show ?thesis
  proof (cases "workspace (blocks s (getSourceBlock s p)) \<and> recordUndo s \<and> getShadowDom s p \<noteq> None")
    case False
    with r n show ?thesis
      by (auto simp add: respawnShadow'_Suc respawnShadow'_body_def respawned_def
          split: option.splits)
  next
    case True
    then obtain d where d: "getShadowDom s p = Some d" by auto
    show ?thesis
    proof (cases "d = DomPlain")
      case True
      with r n d \<open>workspace (blocks s (getSourceBlock s p)) \<and> recordUndo s \<and> getShadowDom s p \<noteq> None\<close>
      show ?thesis
        by (simp add: respawnShadow'_Suc respawnShadow'_body_def newShadowBlock_def)
    next
      case False
      with r n d True have "connect chk m (fst (Xml_domToBlock s d)) p (nextConn s) = Inr s'"
        by (cases d) (simp_all add: respawnShadow'_Suc respawnShadow'_body_def newShadowBlock_def)
      from connect_unlinked_result[OF this domToBlock_unlinked[OF u False]]
      show ?thesis using d True False by (cases d) (simp_all add: respawned_def)
    qed
  qed
qed

lemma detach_unlinked [simp]:
  "\<not> isConnected (detach s a b cb) a" "\<not> isConnected (detach s a b cb) b"
  by (simp_all add: isConnected_def)

lemma disconnect_closed: "disconnect chk (Suc (Suc (Suc (Suc n)))) s c = disconnected chk s c"
  unfolding disconnect_Suc disconnect_body_alt disconnected_def
  by (simp add: respawnShadow'_unlinked split: option.splits)

lemma disconnect_result:
  assumes "disconnect chk n s c = Inr s'"
  shows "disconnected chk s c = Inr s'"
proof -
  obtain m where n: "n = Suc m" using assms by (cases n) (simp_all add: zero_fuel)
  from assms n have b: "disconnect_body (respawnShadow' chk m) s c = Inr s'"
    by (simp add: disconnect_Suc)
  then obtain q where q: "targetConnection (conns s c) = Some q"
    unfolding disconnect_body_alt by (cases "targetConnection (conns s c)") auto
  define cb where "cb = (if isSuperior s c then getSourceBlock s q else getSourceBlock s c)"
  define pc where "pc = (if isSuperior s c then c else q)"
  from b q obtain t where
    r: "respawnShadow' chk m (detach (beginGroup s) c q cb) pc = Inr t"
    and e: "s' = endGroup s t" and rc: "targetConnection (conns s q) = Some c"
    unfolding disconnect_body_alt cb_def pc_def
    by (simp split: if_splits sum.splits)
  have "\<not> isConnected (detach (beginGroup s) c q cb) pc"
    by (simp add: pc_def)
  from respawnShadow'_unlinked_result[OF r this] show ?thesis
    using q rc e by (simp add: disconnected_def cb_def pc_def)
qed

section \<open>Projections of the state transformers\<close>

lemma beginGroup_proj [simp]:
  "conns (beginGroup s) = conns s" "blocks (beginGroup s) = blocks s"
  "nextConn (beginGroup s) = nextConn s" "nextBlock (beginGroup s) = nextBlock s"
  "recordUndo (beginGroup s) = recordUndo s" "enabled (beginGroup s) = enabled s"
  "timers (beginGroup s) = timers s" "fired (beginGroup s) = fired s"
  "group (beginGroup s) \<noteq> None"
  by (simp_all add: beginGroup_def Events_setGroup_def)

lemma endGroup_proj [simp]:
  "conns (endGroup s0 s) = conns s" "blocks (endGroup s0 s) = blocks s"
  "nextConn (endGroup s0 s) = nextConn s" "nextBlock (endGroup s0 s) = nextBlock s"
  "recordUndo (endGroup s0 s) = recordUndo s" "enabled (endGroup s0 s) = enabled s"
  "timers (endGroup s0 s) = timers s" "fired (endGroup s0 s) = fired s"
  by (simp_all add: endGroup_def Events_setGroup_def)

lemma setShadowDom_proj [simp]:
  "shadowDom' (conns (setShadowDom s c d) x) = (if x = c then d else shadowDom' (conns s x))"
  "targetConnection (conns (setShadowDom s c d) x) = targetConnection (conns s x)"
  "sourceBlock' (conns (setShadowDom s c d) x) = sourceBlock' (conns s x)"
  "type (conns (setShadowDom s c d) x) = type (conns s x)"
  "check' (conns (setShadowDom s c d) x) = check' (conns s x)"
  "disposed (conns (setShadowDom s c d) x) = disposed (conns s x)"
  "blocks (setShadowDom s c d) = blocks s"
  "nextConn (setShadowDom s c d) = nextConn s" "nextBlock (setShadowDom s c d) = nextBlock s"
  "recordUndo (setShadowDom s c d) = recordUndo s" "enabled (setShadowDom s c d) = enabled s"
  "timers (setShadowDom s c d) = timers s" "fired (setShadowDom s c d) = fired s"
  "group (setShadowDom s c d) = group s" "nextGroup (setShadowDom s c d) = nextGroup s"
  by (simp_all add: setShadowDom_def updConn_def)

lemma accessors_beginGroup [simp]:
  "isSuperior (beginGroup s) c = isSuperior s c"
  "hasConnectionChecker (beginGroup s) c = hasConnectionChecker s c"
  "getShadowDom (beginGroup s) c = getShadowDom s c"
  "targetBlock (beginGroup s) c = targetBlock s c"
  by (simp_all add: isSuperior_def hasConnectionChecker_def getShadowDom_def targetBlock_def
      getSourceBlock_def split: option.splits)

section \<open>Frames of the closed forms\<close>

lemma dframe_refl [simp]: "dframe s s"
  by (simp add: dframe_def)

lemma dframe_trans:
  assumes "dframe s t" "dframe t u"
  shows "dframe s u"
proof -
  have le: "nextConn s \<le> nextConn t" "nextConn t \<le> nextConn u"
    and tm: "timers t = timers s" "timers u = timers t"
    using assms by (simp_all add: dframe_def)
  have "\<forall>x<nextConn s.
        (targetConnection (conns s x) = None \<longrightarrow> targetConnection (conns u x) = None) \<and>
        (shadowDom' (conns s x) = None \<longrightarrow> shadowDom' (conns u x) = None)"
  proof (intro allI impI)
    fix x assume x: "x < nextConn s"
    then have "x < nextConn t" using le by simp
    with x assms show "(targetConnection (conns s x) = None \<longrightarrow> targetConnection (conns u x) = None) \<and>
        (shadowDom' (conns s x) = None \<longrightarrow> shadowDom' (conns u x) = None)"
      by (simp add: dframe_def)
  qed
  then show ?thesis using le tm by (simp add: dframe_def)
qed

lemma dframe_endGroup [simp]: "dframe s (endGroup s0 t) = dframe s t"
  by (simp add: dframe_def)

lemma dframe_beginGroup [simp]: "dframe (beginGroup s) t = dframe s t"
  by (simp add: dframe_def)

lemma respawned_cases:
  assumes "respawned chk t p = Inr s'"
  obtains (same) "s' = t"
  | (loose) d where "getShadowDom t p = Some d" "d \<noteq> DomPlain" "s' = fst (Xml_domToBlock t d)"
  | (linked) d P C pb cb where "getShadowDom t p = Some d" "d \<noteq> DomPlain"
      "workspace (blocks t (getSourceBlock t p))" "recordUndo t"
      "chk (fst (Xml_domToBlock t d)) p (nextConn t)"
      "(P = p \<and> C = nextConn t) \<or> (P = nextConn t \<and> C = p)"
      "s' = endGroup (fst (Xml_domToBlock t d))
              (attach (beginGroup (fst (Xml_domToBlock t d))) P C pb cb)"
proof (cases "workspace (blocks t (getSourceBlock t p)) \<and> recordUndo t \<and> getShadowDom t p \<noteq> None")
  case False
  with assms have "s' = t" by (auto simp add: respawned_def split: option.splits)
  then show ?thesis by (rule same)
next
  case True
  then obtain d where d: "getShadowDom t p = Some d" by auto
  with assms True have nd: "d \<noteq> DomPlain" by (auto simp add: respawned_def)
  with assms True d have lp: "linkPair chk (fst (Xml_domToBlock t d)) p (nextConn t) = Inr s'"
    by (cases d) (simp_all add: respawned_def)
  let ?t1 = "fst (Xml_domToBlock t d)"
  show ?thesis
  proof (cases "s' = ?t1")
    case True
    with d nd show ?thesis by (rule loose)
  next
    case False
    with lp have c: "chk ?t1 p (nextConn t)"
      and e: "s' = endGroup ?t1
               (if isSuperior ?t1 p
                then attach (beginGroup ?t1) p (nextConn t) (getSourceBlock ?t1 p)
                       (getSourceBlock ?t1 (nextConn t))
                else attach (beginGroup ?t1) (nextConn t) p (getSourceBlock ?t1 (nextConn t))
                       (getSourceBlock ?t1 p))"
      by (auto simp add: linkPair_def split: if_splits)
    show ?thesis
    proof (cases "isSuperior ?t1 p")
      case True
      with e show ?thesis using d nd \<open>workspace (blocks t (getSourceBlock t p)) \<and> recordUndo t \<and> getShadowDom t p \<noteq> None\<close> c
        by (intro linked[of d p "nextConn t"]) auto
    next
      case False
      with e show ?thesis using d nd \<open>workspace (blocks t (getSourceBlock t p)) \<and> recordUndo t \<and> getShadowDom t p \<noteq> None\<close> c
        by (intro linked[of d "nextConn t" p]) auto
    qed
  qed
qed

lemma disconnected_cases:
  assumes "disconnected chk s c = Inr s'"
  obtains q t where "targetConnection (conns s c) = Some q" "targetConnection (conns s q) = Some c"
    "t = detach (beginGroup s) c q
           (if isSuperior s c then getSourceBlock s q else getSourceBlock s c)"
    "\<exists>u. respawned chk t (if isSuperior s c then c else q) = Inr u \<and> s' = endGroup s u"
proof -
  from assms obtain q where q: "targetConnection (conns s c) = Some q"
    by (cases "targetConnection (conns s c)") (auto simp add: disconnected_def)
  with assms have r: "targetConnection (conns s q) = Some c"
    by (auto simp add: disconnected_def split: if_splits)
  from assms q r have "\<exists>u. respawned chk (detach (beginGroup s) c q
           (if isSuperior s c then getSourceBlock s q else getSourceBlock s c))
         (if isSuperior s c then c else q) = Inr u \<and> s' = endGroup s u"
    by (auto simp add: disconnected_def split: sum.splits)
  with q r that show ?thesis by blast
qed

lemma dframe_detach:
  "dframe s (detach s a b cb)"
  by (simp add: dframe_def)

lemma dframe_domToBlock: "dframe s (fst (Xml_domToBlock s d))"
  by (simp add: dframe_def domToBlock_proj)

lemma dframe_disconnected:
  assumes "disconnected chk s c = Inr s'"
  shows "dframe s s'"
proof -
  from assms obtain q t u where q: "targetConnection (conns s c) = Some q"
    and r: "targetConnection (conns s q) = Some c"
    and t: "t = detach (beginGroup s) c q
           (if isSuperior s c then getSourceBlock s q else getSourceBlock s c)"
    and u: "respawned chk t (if isSuperior s c then c else q) = Inr u" and e: "s' = endGroup s u"
    by (elim disconnected_cases) blast
  let ?p = "if isSuperior s c then c else q"
  have st: "dframe s t" unfolding t using dframe_detach[of "beginGroup s"] by simp
  have "dframe s u"
    using u
  proof (cases rule: respawned_cases)
    case same
    then show ?thesis using st by simp
  next
    case (loose d)
    then show ?thesis using st dframe_domToBlock dframe_trans by blast
  next
    case (linked d P C pb cb)
    let ?t1 = "fst (Xml_domToBlock t d)"
    have n: "nextConn t = nextConn s" by (simp add: t)
    have old: "\<And>x. x < nextConn s \<Longrightarrow> conns ?t1 x = conns t x"
      using n by (simp add: domToBlock_proj)
    have "\<And>x. x < nextConn s \<Longrightarrow>
        (targetConnection (conns s x) = None \<longrightarrow> targetConnection (conns u x) = None) \<and>
        (shadowDom' (conns s x) = None \<longrightarrow> shadowDom' (conns u x) = None)"
    proof -
      fix x assume x: "x < nextConn s"
      have sh: "shadowDom' (conns u x) = shadowDom' (conns s x)"
        using old[OF x] by (simp add: linked(7) t)
      have "targetConnection (conns s x) = None \<Longrightarrow> targetConnection (conns u x) = None"
      proof -
        assume f: "targetConnection (conns s x) = None"
        then have "x \<noteq> c" "x \<noteq> q" using q r by auto
        then have "x \<noteq> P" "x \<noteq> C" using linked(6) x n by (auto split: if_splits)
        then show ?thesis using old[OF x] f by (simp add: linked(7) t)
      qed
      with sh show "(targetConnection (conns s x) = None \<longrightarrow> targetConnection (conns u x) = None) \<and>
        (shadowDom' (conns s x) = None \<longrightarrow> shadowDom' (conns u x) = None)" by simp
    qed
    then show ?thesis
      using n by (simp add: dframe_def linked(7) domToBlock_proj t)
  qed
  then show ?thesis by (simp add: e)
qed

lemma checkerOK_type:
  assumes "checkerOK chk" "chk s a b"
  shows "type (conns s b) = opposite (type (conns s a))" "type (conns s a) = opposite (type (conns s b))"
proof -
  from assms show 1: "type (conns s b) = opposite (type (conns s a))"
    unfolding checkerOK_def by blast
  then show "type (conns s a) = opposite (type (conns s b))" by simp
qed

lemma wfState_respawned:
  assumes wf: "wfState t" and ok: "checkerOK chk"
    and al: "p < nextConn t" and un: "targetConnection (conns t p) = None"
    and r: "respawned chk t p = Inr u"
  shows "wfState u"
  using r
proof (cases rule: respawned_cases)
  case same
  then show ?thesis using wf by simp
next
  case (loose d)
  then show ?thesis using wf wfState_domToBlock by simp
next
  case (linked d P C pb cb)
  let ?t1 = "fst (Xml_domToBlock t d)"
  have w1: "wfState (beginGroup ?t1)" using wf wfState_domToBlock by simp
  have nc: "nextConn ?t1 = Suc (nextConn t)" using linked(2) by (simp add: domToBlock_proj)
  have p1: "conns ?t1 p = conns t p" using al by (simp add: domToBlock_proj)
  have f1: "targetConnection (conns ?t1 (nextConn t)) = None"
    using linked(2) by (cases d) (simp_all add: newConnection_def)
  note ty = checkerOK_type[OF ok linked(5)]
  have "wfState (attach (beginGroup ?t1) P C pb cb)"
  proof (rule wfState_attach[OF w1])
    show "P < nextConn (beginGroup ?t1)" "C < nextConn (beginGroup ?t1)"
      using linked(6) al nc by auto
    show "targetConnection (conns (beginGroup ?t1) P) = None"
      "targetConnection (conns (beginGroup ?t1) C) = None"
      using linked(6) p1 f1 un by auto
    show "type (conns (beginGroup ?t1) C) = opposite (type (conns (beginGroup ?t1) P))"
      using linked(6) ty by auto
  qed
  then show ?thesis by (simp add: linked(7))
qed

lemma wfState_disconnected:
  assumes wf: "wfState s" and ok: "checkerOK chk" and d: "disconnected chk s c = Inr s'"
  shows "wfState s'"
proof -
  from d obtain q t u where q: "targetConnection (conns s c) = Some q"
    and r: "targetConnection (conns s q) = Some c"
    and t: "t = detach (beginGroup s) c q
           (if isSuperior s c then getSourceBlock s q else getSourceBlock s c)"
    and u: "respawned chk t (if isSuperior s c then c else q) = Inr u" and e: "s' = endGroup s u"
    by (elim disconnected_cases) blast
  have wl: "wfLinks s" using wf by (simp add: wfState_def)
  note a = wfLinksD[OF wl q]
  have wt: "wfState t"
    unfolding t by (rule wfState_detach) (simp_all add: wf q)
  have "wfState u"
  proof (rule wfState_respawned[OF wt ok _ _ u])
    show "(if isSuperior s c then c else q) < nextConn t" using a by (simp add: t)
    show "targetConnection (conns t (if isSuperior s c then c else q)) = None" by (simp add: t)
  qed
  then show ?thesis by (simp add: e)
qed

text \<open>What \<open>disconnect\<close> does to the two connections it is called on.\<close>

lemma disconnected_child_free:
  assumes d: "disconnected chk s c = Inr s'" and q: "targetConnection (conns s c) = Some q"
    and x: "x = c \<or> x = q" "x \<noteq> (if isSuperior s c then c else q)" "x < nextConn s"
  shows "targetConnection (conns s' x) = None"
proof -
  from d q obtain t u where
    t: "t = detach (beginGroup s) c q
           (if isSuperior s c then getSourceBlock s q else getSourceBlock s c)"
    and u: "respawned chk t (if isSuperior s c then c else q) = Inr u" and e: "s' = endGroup s u"
    by (elim disconnected_cases) auto
  have n: "nextConn t = nextConn s" by (simp add: t)
  have xt: "targetConnection (conns t x) = None" using x(1) by (auto simp add: t)
  have "targetConnection (conns u x) = None"
    using u
  proof (cases rule: respawned_cases)
    case same
    then show ?thesis using xt by simp
  next
    case (loose d)
    then show ?thesis using xt x(3) n by (simp add: domToBlock_proj)
  next
    case (linked d P C pb cb)
    have "x \<noteq> P" "x \<noteq> C" using linked(6) x n by auto
    then show ?thesis using xt x(3) n by (simp add: linked(7) domToBlock_proj)
  qed
  then show ?thesis by (simp add: e)
qed

lemma disconnected_no_respawn:
  assumes q: "targetConnection (conns s c) = Some q" and r: "targetConnection (conns s q) = Some c"
    and no: "getShadowDom s (if isSuperior s c then c else q) = None \<or> \<not> recordUndo s \<or>
             \<not> workspace (blocks s (getSourceBlock s (if isSuperior s c then c else q)))"
  shows "disconnected chk s c =
         Inr (endGroup s (detach (beginGroup s) c q
                (if isSuperior s c then getSourceBlock s q else getSourceBlock s c)))"
proof -
  let ?t = "detach (beginGroup s) c q
                (if isSuperior s c then getSourceBlock s q else getSourceBlock s c)"
  let ?p = "if isSuperior s c then c else q"
  have "getShadowDom ?t ?p = getShadowDom s ?p" "recordUndo ?t = recordUndo s"
    "workspace (blocks ?t (getSourceBlock ?t ?p)) = workspace (blocks s (getSourceBlock s ?p))"
    by (simp_all add: getShadowDom_def getSourceBlock_def)
  then have "respawned chk ?t ?p = Inr ?t"
    using no by (auto simp add: respawned_def)
  then show ?thesis using q r by (simp add: disconnected_def)
qed

section \<open>Disconnecting and disposing keep the store well-formed\<close>

lemma dgoodD:
  assumes "dgood chk f" "f s x = Inr s'"
  shows "dframe s s'" "checkerOK chk \<Longrightarrow> wfState s \<Longrightarrow> wfState s'"
  using assms by (auto simp add: dgood_def)

lemma dgood_disconnect: "dgood chk (disconnect chk n)"
  unfolding dgood_def
  using disconnect_result dframe_disconnected wfState_disconnected by blast

lemma Block_unplug_body_dgood:
  assumes "dgood chk fd"
  shows "dgood chk (Block_unplug_body fd)"
  unfolding dgood_def Block_unplug_body_def
  by (auto split: option.splits if_splits dest: dgoodD[OF assms])

lemma dframe_setShadowDom_None: "dframe s (setShadowDom s c None)"
  by (simp add: dframe_def)

lemma dframe_disposed: "dframe s (updConn s c (\<lambda>k. k\<lparr>disposed := True\<rparr>))"
  by (simp add: dframe_def updConn_def)

lemma dframe_workspace: "dframe s (updBlock s b (\<lambda>k. k\<lparr>workspace := False\<rparr>))"
  by (simp add: dframe_def updBlock_def)

lemma dispose_body_dgood:
  assumes "dgood chk fb" "dgood chk fu"
  shows "dgood chk (dispose_body fb fu)"
  unfolding dgood_def
proof (intro allI impI)
  fix s x s'
  assume h: "dispose_body fb fu s x = Inr s'"
  let ?s1 = "setShadowDom s x None"
  from h obtain s2 where s2: "s' = updConn s2 x (\<lambda>k. k\<lparr>disposed := True\<rparr>)"
    and c: "s2 = s \<or> (\<exists>tb. fb ?s1 tb = Inr s2) \<or> (\<exists>tb. fu ?s1 tb = Inr s2)"
    unfolding dispose_body_def Let_def
    by (auto split: sum.splits if_splits option.splits)
  have 1: "dframe s s2 \<and> (checkerOK chk \<longrightarrow> wfState s \<longrightarrow> wfState s2)"
    using c
  proof (elim disjE exE)
    assume "s2 = s" then show ?thesis by simp
  next
    fix tb assume "fb ?s1 tb = Inr s2"
    from dgoodD[OF assms(1) this] show ?thesis
      using dframe_trans[OF dframe_setShadowDom_None] by simp
  next
    fix tb assume "fu ?s1 tb = Inr s2"
    from dgoodD[OF assms(2) this] show ?thesis
      using dframe_trans[OF dframe_setShadowDom_None] by simp
  qed
  show "dframe s s' \<and> (checkerOK chk \<longrightarrow> wfState s \<longrightarrow> wfState s')"
    unfolding s2 using 1 dframe_trans[OF _ dframe_disposed] by simp
qed

lemma forEachE_dgood:
  assumes "dgood chk fd"
  shows "forEachE (\<lambda>c t. fd t c) xs s = Inr s' \<Longrightarrow>
         dframe s s' \<and> (checkerOK chk \<longrightarrow> wfState s \<longrightarrow> wfState s')"
proof (induction xs arbitrary: s)
  case Nil
  then show ?case by simp
next
  case (Cons x xs)
  then obtain s1 where 1: "fd s x = Inr s1" and 2: "forEachE (\<lambda>c t. fd t c) xs s1 = Inr s'"
    by (auto split: sum.splits)
  from dgoodD[OF assms 1] Cons.IH[OF 2] show ?case
    using dframe_trans by blast
qed

lemma Block_dispose_body_dgood:
  assumes "dgood chk fu" "dgood chk fd"
  shows "dgood chk (Block_dispose_body fu fd)"
  unfolding dgood_def
proof (intro allI impI)
  fix s x s'
  assume "Block_dispose_body fu fd s x = Inr s'"
  then obtain s1 where 1: "fu s x = Inr s1"
    and 2: "forEachE (\<lambda>c t. fd t c) (getConnections s1 x)
             (updBlock s1 x (\<lambda>k. k\<lparr>workspace := False\<rparr>)) = Inr s'"
    unfolding Block_dispose_body_def by (auto split: sum.splits)
  note a = dgoodD[OF assms(1) 1] and b = forEachE_dgood[OF assms(2) 2]
  have "dframe s1 s'"
    using dframe_trans[OF dframe_workspace] b by blast
  with a(1) have "dframe s s'" by (rule dframe_trans)
  then show "dframe s s' \<and> (checkerOK chk \<longrightarrow> wfState s \<longrightarrow> wfState s')"
    using a(2) b by simp
qed

lemma dgood_unplug: "dgood chk (Block_unplug chk n)"
proof (cases n)
  case 0
  then show ?thesis by (simp add: dgood_def zero_fuel)
next
  case (Suc m)
  have "Block_unplug chk (Suc m) = Block_unplug_body (disconnect chk m)"
    by (intro ext) (simp add: Block_unplug_Suc)
  then show ?thesis using Suc Block_unplug_body_dgood[OF dgood_disconnect] by simp
qed

lemma dgood_dispose: "dgood chk (dispose chk n) \<and> dgood chk (Block_dispose chk n)"
proof (induction n)
  case 0
  show ?case by (simp add: dgood_def zero_fuel)
next
  case (Suc n)
  have eqs: "dispose chk (Suc n) = dispose_body (Block_dispose chk n) (Block_unplug chk n)"
    "Block_dispose chk (Suc n) = Block_dispose_body (Block_unplug chk n) (dispose chk n)"
    by (intro ext, simp add: dispose_Suc Block_dispose_Suc)+
  show ?case
    unfolding eqs using Suc dgood_unplug
    by (intro conjI dispose_body_dgood Block_dispose_body_dgood) simp_all
qed

section \<open>The searches for a new home of the orphan\<close>

lemma wfBlocksD:
  assumes "wfBlocks s" "b < nextBlock s"
  shows "outputConnection (blocks s b) = Some c \<Longrightarrow>
           c < nextConn s \<and> sourceBlock' (conns s c) = b \<and> type (conns s c) = OUTPUT_VALUE"
    and "previousConnection (blocks s b) = Some c \<Longrightarrow>
           c < nextConn s \<and> sourceBlock' (conns s c) = b \<and> type (conns s c) = PREVIOUS_STATEMENT"
    and "nextConnection (blocks s b) = Some c \<Longrightarrow>
           c < nextConn s \<and> sourceBlock' (conns s c) = b \<and> type (conns s c) = NEXT_STATEMENT"
    and "Some c \<in> set (inputList (blocks s b)) \<Longrightarrow>
           c < nextConn s \<and> sourceBlock' (conns s c) = b \<and>
           (type (conns s c) = INPUT_VALUE \<or> type (conns s c) = NEXT_STATEMENT)"
proof -
  from assms have 1: "wfSlot s b (outputConnection (blocks s b)) OUTPUT_VALUE"
    and 2: "wfSlot s b (previousConnection (blocks s b)) PREVIOUS_STATEMENT"
    and 3: "wfSlot s b (nextConnection (blocks s b)) NEXT_STATEMENT"
    and 4: "\<forall>c. Some c \<in> set (inputList (blocks s b)) \<longrightarrow>
           c < nextConn s \<and> sourceBlock' (conns s c) = b \<and>
           (type (conns s c) = INPUT_VALUE \<or> type (conns s c) = NEXT_STATEMENT)"
    unfolding wfBlocks_def by blast+
  from 1 show "outputConnection (blocks s b) = Some c \<Longrightarrow>
           c < nextConn s \<and> sourceBlock' (conns s c) = b \<and> type (conns s c) = OUTPUT_VALUE"
    by (simp add: wfSlot_def)
  from 2 show "previousConnection (blocks s b) = Some c \<Longrightarrow>
           c < nextConn s \<and> sourceBlock' (conns s c) = b \<and> type (conns s c) = PREVIOUS_STATEMENT"
    by (simp add: wfSlot_def)
  from 3 show "nextConnection (blocks s b) = Some c \<Longrightarrow>
           c < nextConn s \<and> sourceBlock' (conns s c) = b \<and> type (conns s c) = NEXT_STATEMENT"
    by (simp add: wfSlot_def)
  from 4 show "Some c \<in> set (inputList (blocks s b)) \<Longrightarrow>
           c < nextConn s \<and> sourceBlock' (conns s c) = b \<and>
           (type (conns s c) = INPUT_VALUE \<or> type (conns s c) = NEXT_STATEMENT)"
    by blast
qed

lemma wfConnsD:
  assumes "wfConns s" "c < nextConn s"
  shows "sourceBlock' (conns s c) < nextBlock s"
    and "type (conns s c) = OUTPUT_VALUE \<Longrightarrow>
           outputConnection (blocks s (sourceBlock' (conns s c))) = Some c"
    and "type (conns s c) = PREVIOUS_STATEMENT \<Longrightarrow>
           previousConnection (blocks s (sourceBlock' (conns s c))) = Some c \<and>
           outputConnection (blocks s (sourceBlock' (conns s c))) = None"
  using assms unfolding wfConns_def by blast+

lemma singleConnection_loop_acc:
  "singleConnection_loop chk s oc xs (Some a) = Inr (Some tc) \<Longrightarrow> tc = a"
proof (induction xs)
  case Nil
  then show ?case by simp
next
  case (Cons x xs)
  then show ?case
    by (cases oc; cases x) (auto split: if_splits)
qed

lemma singleConnection_loop_Some:
  "singleConnection_loop chk s oc xs None = Inr (Some tc) \<Longrightarrow>
   Some tc \<in> set xs \<and> type (conns s tc) = INPUT_VALUE \<and> (\<exists>out. oc = Some out \<and> chk s out tc)"
proof (induction xs)
  case Nil
  then show ?case by simp
next
  case (Cons x xs)
  from Cons.prems obtain out where out: "oc = Some out" and hc: "hasConnectionChecker s out"
    by (cases oc) (auto split: if_splits)
  show ?case
  proof (cases x)
    case None
    with Cons.prems out hc have "singleConnection_loop chk s oc xs None = Inr (Some tc)"
      by simp
    from Cons.IH[OF this] show ?thesis by auto
  next
    case (Some y)
    show ?thesis
    proof (cases "type (conns s y) = INPUT_VALUE \<and> chk s out y")
      case False
      with Cons.prems out hc Some have "singleConnection_loop chk s oc xs None = Inr (Some tc)"
        by auto
      from Cons.IH[OF this] show ?thesis by auto
    next
      case True
      with Cons.prems out hc Some
      have "singleConnection_loop chk s oc xs (Some y) = Inr (Some tc)"
        by (auto split: if_splits)
      then have "tc = y" by (rule singleConnection_loop_acc)
      then show ?thesis using True Some out by auto
    qed
  qed
qed

lemma singleConnection'_Some:
  assumes "singleConnection' chk s blk orphan = Inr (Some tc)"
  shows "Some tc \<in> set (inputList (blocks s blk))" "type (conns s tc) = INPUT_VALUE"
    "\<exists>out. outputConnection (blocks s orphan) = Some out \<and> chk s out tc"
  using singleConnection_loop_Some[OF assms[unfolded singleConnection'_def]] by auto

lemma lastConnectionInRow_Some:
  assumes "lastConnectionInRow chk n s start orphan = Inr (Some slot)"
    and "wfState s" and "start < nextBlock s"
  shows "slot < nextConn s \<and> type (conns s slot) = INPUT_VALUE \<and>
         (\<exists>out. outputConnection (blocks s orphan) = Some out \<and> chk s out slot) \<and>
         (\<forall>nb. targetBlock s slot = Some nb \<longrightarrow> isShadow (blocks s nb))"
  using assms
proof (induction n arbitrary: start)
  case 0
  then show ?case by simp
next
  case (Suc n)
  from Suc.prems(1) obtain tc where tc: "singleConnection' chk s start orphan = Inr (Some tc)"
    by (auto split: sum.splits option.splits)
  note sc = singleConnection'_Some[OF tc]
  have wb: "wfBlocks s" and wl: "wfLinks s" and wc: "wfConns s"
    using Suc.prems(2) by (simp_all add: wfState_def)
  from wfBlocksD(4)[OF wb Suc.prems(3) sc(1)] have al: "tc < nextConn s" by simp
  show ?case
  proof (cases "targetBlock s tc")
    case None
    with Suc.prems(1) tc have "slot = tc" by simp
    then show ?thesis using al sc None by simp
  next
    case (Some nb)
    show ?thesis
    proof (cases "isShadow (blocks s nb)")
      case True
      with Suc.prems(1) tc Some have "slot = tc" by simp
      then show ?thesis using al sc Some True by simp
    next
      case False
      with Suc.prems(1) tc Some
      have r: "lastConnectionInRow chk n s nb orphan = Inr (Some slot)" by simp
      from Some obtain t where t: "targetConnection (conns s tc) = Some t"
        and nb: "nb = sourceBlock' (conns s t)"
        by (auto simp add: targetBlock_def getSourceBlock_def split: option.splits)
      from wfConnsD(1)[OF wc wfLinksD(2)[OF wl t]] have "nb < nextBlock s"
        unfolding nb .
      from Suc.IH[OF r Suc.prems(2) this] show ?thesis .
    qed
  qed
qed

lemma lastNextConnection_Some:
  assumes "lastNextConnection n s start = Inr (Some nc)"
    and "wfState s" and "start < nextBlock s"
  shows "nc < nextConn s \<and> type (conns s nc) = NEXT_STATEMENT \<and>
         (\<forall>nb. targetBlock s nc = Some nb \<longrightarrow> isShadow (blocks s nb))"
  using assms
proof (induction n arbitrary: start)
  case 0
  then show ?case by simp
next
  case (Suc n)
  from Suc.prems(1) obtain c where c: "nextConnection (blocks s start) = Some c"
    by (auto split: option.splits)
  have wb: "wfBlocks s" and wl: "wfLinks s" and wc: "wfConns s"
    using Suc.prems(2) by (simp_all add: wfState_def)
  from wfBlocksD(3)[OF wb Suc.prems(3) c] have al: "c < nextConn s" "type (conns s c) = NEXT_STATEMENT"
    by simp_all
  show ?case
  proof (cases "targetBlock s c")
    case None
    with Suc.prems(1) c have "nc = c" by simp
    then show ?thesis using al None by simp
  next
    case (Some nb)
    show ?thesis
    proof (cases "isShadow (blocks s nb)")
      case True
      with Suc.prems(1) c Some have "nc = c" by simp
      then show ?thesis using al Some True by simp
    next
      case False
      with Suc.prems(1) c Some
      have r: "lastNextConnection n s nb = Inr (Some nc)" by simp
      from Some obtain t where t: "targetConnection (conns s c) = Some t"
        and nb: "nb = sourceBlock' (conns s t)"
        by (auto simp add: targetBlock_def getSourceBlock_def split: option.splits)
      from wfConnsD(1)[OF wc wfLinksD(2)[OF wl t]] have "nb < nextBlock s"
        unfolding nb .
      from Suc.IH[OF r Suc.prems(2) this] show ?thesis .
    qed
  qed
qed

section \<open>The attach sequence keeps the store well-formed\<close>

lemma disconnected_others:
  assumes d: "disconnected chk s c = Inr s'" and q: "targetConnection (conns s c) = Some q"
    and x: "x < nextConn s" "x \<noteq> c" "x \<noteq> q"
  shows "conns s' x = conns s x"
proof -
  from d q obtain t u where
    t: "t = detach (beginGroup s) c q
           (if isSuperior s c then getSourceBlock s q else getSourceBlock s c)"
    and u: "respawned chk t (if isSuperior s c then c else q) = Inr u" and e: "s' = endGroup s u"
    by (elim disconnected_cases) auto
  have n: "nextConn t = nextConn s" by (simp add: t)
  have xt: "conns t x = conns s x"
    using x by (simp add: t detach_def Let_def updConn_def Block_setParent_def updBlock_def
        Events_fire_def)
  have "conns u x = conns t x"
    using u
  proof (cases rule: respawned_cases)
    case same
    then show ?thesis by simp
  next
    case (loose d)
    then show ?thesis using x(1) n by (simp add: domToBlock_proj)
  next
    case (linked d P C pb cb)
    have "x \<noteq> P" "x \<noteq> C" using linked(6) x n by (auto split: if_splits)
    then have "conns (attach (beginGroup (fst (Xml_domToBlock t d))) P C pb cb) x =
               conns (fst (Xml_domToBlock t d)) x"
      by (simp add: attach_def Let_def updConn_def Block_setParent_def updBlock_def
        Events_fire_def)
    then show ?thesis using x(1) n by (simp add: linked(7) domToBlock_proj)
  qed
  then show ?thesis using xt by (simp add: e)
qed

lemma frame_disconnect: "disconnect chk n s c = Inr s' \<Longrightarrow> frame s s'"
  unfolding disconnect_def by (rule exec_frame)

lemma frame_connect': "connect' chk n s p c = Inr s' \<Longrightarrow> frame s s'"
  unfolding connect'_def by (rule exec_frame)

lemma frame_connect: "connect chk n s p c = Inr s' \<Longrightarrow> frame s s'"
  unfolding connect_def by (rule exec_frame)

lemma frame_Block_dispose: "Block_dispose chk n s b = Inr s' \<Longrightarrow> frame s s'"
  unfolding Block_dispose_def by (rule exec_frame)

lemma frameD:
  assumes "frame s s'"
  shows "nextConn s \<le> nextConn s'" "nextBlock s \<le> nextBlock s'"
    "c < nextConn s \<Longrightarrow> type (conns s' c) = type (conns s c)"
    "c < nextConn s \<Longrightarrow> sourceBlock' (conns s' c) = sourceBlock' (conns s c)"
    "b < nextBlock s \<Longrightarrow> isShadow (blocks s' b) = isShadow (blocks s b)"
    "b < nextBlock s \<Longrightarrow> outputConnection (blocks s' b) = outputConnection (blocks s b)"
    "b < nextBlock s \<Longrightarrow> previousConnection (blocks s' b) = previousConnection (blocks s b)"
    "recordUndo s' = recordUndo s"
  using assms by (simp_all add: frame_def)

lemma dframeD:
  assumes "dframe s s'"
  shows "nextConn s \<le> nextConn s'" "timers s' = timers s"
    "x < nextConn s \<Longrightarrow> targetConnection (conns s x) = None \<Longrightarrow>
       targetConnection (conns s' x) = None"
    "x < nextConn s \<Longrightarrow> shadowDom' (conns s x) = None \<Longrightarrow> shadowDom' (conns s' x) = None"
  using assms by (simp_all add: dframe_def)

lemma pre_disconnect:
  assumes wf: "wfState s" and ok: "checkerOK chk" and c: "c < nextConn s" "\<not> isSuperior s c"
    and r: "(if isConnected s c then disconnect chk m s c else Inr s) = Inr s1"
  shows "preOK s c s1"
proof -
  have wl: "wfLinks s" using wf by (simp add: wfState_def)
  show ?thesis
  proof (cases "targetConnection (conns s c)")
    case None
    then have e: "s1 = s" using r by (simp add: isConnected_def)
    have no: "\<And>x. targetConnection (conns s x) \<noteq> Some c"
    proof
      fix x assume "targetConnection (conns s x) = Some c"
      from wfLinksD(3)[OF wl this] None show False by simp
    qed
    show ?thesis
      unfolding preOK_def e using wf None no by (simp add: frame_refl)
  next
    case (Some q)
    then have dc: "disconnect chk m s c = Inr s1" using r by (simp add: isConnected_def)
    from disconnect_result[OF dc] have d: "disconnected chk s c = Inr s1" .
    note a = wfLinksD[OF wl Some]
    have p: "(if isSuperior s c then c else q) = q" using c(2) by simp
    have 1: "targetConnection (conns s1 c) = None"
    proof (rule disconnected_child_free[OF d Some])
      show "c = c \<or> c = q" by simp
      show "c \<noteq> (if isSuperior s c then c else q)" using a(5) p by simp
      show "c < nextConn s" by (rule c(1))
    qed
    have 2: "\<forall>x. x < nextConn s \<longrightarrow> x \<noteq> c \<longrightarrow> targetConnection (conns s x) \<noteq> Some c \<longrightarrow>
           conns s1 x = conns s x"
    proof (intro allI impI)
      fix x assume x: "x < nextConn s" "x \<noteq> c" "targetConnection (conns s x) \<noteq> Some c"
      then have "x \<noteq> q" using a(3) by auto
      with x show "conns s1 x = conns s x" by (intro disconnected_others[OF d Some])
    qed
    have 3: "\<forall>x. x < nextConn s \<longrightarrow> targetConnection (conns s x) = Some c \<longrightarrow>
           shadowDom' (conns s x) = None \<longrightarrow> targetConnection (conns s1 x) = None"
    proof (intro allI impI)
      fix x assume x: "targetConnection (conns s x) = Some c" "shadowDom' (conns s x) = None"
      from wfLinksD(3)[OF wl x(1)] Some have xq: "x = q" by simp
      have "getShadowDom s (if isSuperior s c then c else q) = None"
        using x(2) p xq by (simp add: getShadowDom_def)
      then have "disconnected chk s c = Inr (endGroup s (detach (beginGroup s) c q
                (if isSuperior s c then getSourceBlock s q else getSourceBlock s c)))"
        by (intro disconnected_no_respawn[OF Some a(3)] disjI1)
      with d have "s1 = endGroup s (detach (beginGroup s) c q
                (if isSuperior s c then getSourceBlock s q else getSourceBlock s c))" by simp
      then show "targetConnection (conns s1 x) = None" using xq by simp
    qed
    show ?thesis
      unfolding preOK_def
      using 1 2 3 wfState_disconnected[OF wf ok d] dframe_disconnected[OF d] frame_disconnect[OF dc]
      by (intro conjI)
  qed
qed

lemma isSuperior_inferior:
  assumes "isSuperior s p" "type (conns s t) = opposite (type (conns s p))"
  shows "type (conns s t) = OUTPUT_VALUE \<or> type (conns s t) = PREVIOUS_STATEMENT"
    and "\<not> isSuperior s t"
  using assms by (auto simp add: isSuperior_def)

lemma unplug_is_disconnect:
  assumes wf: "wfState s" and l: "targetConnection (conns s p) = Some t" and sup: "isSuperior s p"
    and r: "Block_unplug chk n s (getSourceBlock s t) = Inr s'"
  shows "disconnected chk s t = Inr s'"
proof -
  have wl: "wfLinks s" and wc: "wfConns s" using wf by (simp_all add: wfState_def)
  note a = wfLinksD[OF wl l]
  note i = isSuperior_inferior[OF sup a(4)]
  obtain m where n: "n = Suc m" using r by (cases n) (simp_all add: zero_fuel)
  have con: "isConnected s t" using a(3) by (simp add: isConnected_def)
  have "disconnect chk m s t = Inr s'"
  proof (cases "type (conns s t) = OUTPUT_VALUE")
    case True
    from wfConnsD(2)[OF wc a(2) True]
    show ?thesis using r n con
      by (simp add: Block_unplug_Suc Block_unplug_body_def getSourceBlock_def)
  next
    case False
    with i(1) have "type (conns s t) = PREVIOUS_STATEMENT" by simp
    from wfConnsD(3)[OF wc a(2) this]
    show ?thesis using r n con
      by (simp add: Block_unplug_Suc Block_unplug_body_def getSourceBlock_def)
  qed
  then show ?thesis by (rule disconnect_result)
qed

lemma unplug_frees:
  assumes wf: "wfState s" and l: "targetConnection (conns s p) = Some t" and sup: "isSuperior s p"
    and sd: "shadowDom' (conns s p) = None"
    and r: "Block_unplug chk n s (getSourceBlock s t) = Inr s'"
  shows "s' = endGroup s (detach (beginGroup s) t p (getSourceBlock s t))"
proof -
  have wl: "wfLinks s" using wf by (simp add: wfState_def)
  note a = wfLinksD[OF wl l]
  note i = isSuperior_inferior[OF sup a(4)]
  have "disconnected chk s t =
        Inr (endGroup s (detach (beginGroup s) t p
               (if isSuperior s t then getSourceBlock s p else getSourceBlock s t)))"
    by (rule disconnected_no_respawn[OF a(3) l]) (use sd i(2) in \<open>simp add: getShadowDom_def\<close>)
  with unplug_is_disconnect[OF wf l sup r] i(2) show ?thesis by simp
qed

lemma Block_dispose_frees:
  assumes wf: "wfState s" and ok: "checkerOK chk"
    and l: "targetConnection (conns s p) = Some t" and sup: "isSuperior s p"
    and sd: "shadowDom' (conns s p) = None"
    and r: "Block_dispose chk n s (getSourceBlock s t) = Inr s'"
  shows "wfState s'" and "dframe s s'" and "targetConnection (conns s' p) = None"
proof -
  have g: "dgood chk (Block_dispose chk n)" using dgood_dispose by simp
  from dgoodD[OF g r] wf ok show "wfState s'" and df: "dframe s s'" by simp_all
  have wl: "wfLinks s" using wf by (simp add: wfState_def)
  note a = wfLinksD[OF wl l]
  obtain m where n: "n = Suc m" using r by (cases n) (simp_all add: zero_fuel)
  let ?X = "getSourceBlock s t"
  from r n obtain s1 where u: "Block_unplug chk m s ?X = Inr s1"
    and f: "forEachE (\<lambda>c t. dispose chk m t c) (getConnections s1 ?X)
             (updBlock s1 ?X (\<lambda>k. k\<lparr>workspace := False\<rparr>)) = Inr s'"
    by (auto simp add: Block_dispose_Suc Block_dispose_body_def split: sum.splits)
  have s1: "s1 = endGroup s (detach (beginGroup s) t p ?X)"
    by (rule unplug_frees[OF wf l sup sd u])
  have gd: "dgood chk (dispose chk m)" using dgood_dispose by simp
  from forEachE_dgood[OF gd f] have "dframe (updBlock s1 ?X (\<lambda>k. k\<lparr>workspace := False\<rparr>)) s'"
    by simp
  from dframeD(3)[OF this, of p] show "targetConnection (conns s' p) = None"
    using a(1) by (simp add: s1 updBlock_def)
qed

lemma accessors_setShadowDom [simp]:
  "isSuperior (setShadowDom s c d) x = isSuperior s x"
  "getSourceBlock (setShadowDom s c d) x = getSourceBlock s x"
  "isConnected (setShadowDom s c d) x = isConnected s x"
  "targetBlock (setShadowDom s c d) x = targetBlock s x"
  "hasConnectionChecker (setShadowDom s c d) x = hasConnectionChecker s x"
  by (simp_all add: isSuperior_def getSourceBlock_def isConnected_def targetBlock_def
      hasConnectionChecker_def split: option.splits)

text \<open>Step 2 of the attach sequence when the parent connection is free or holds a placeholder.\<close>

lemma displaceOrphan_shadow:
  assumes wf: "wfState s1" and ok: "checkerOK chk"
    and p: "p < nextConn s1" "isSuperior s1 p"
    and occ: "\<And>t. targetConnection (conns s1 p) = Some t \<Longrightarrow>
                 isShadow (blocks s1 (getSourceBlock s1 t))"
    and dis: "displaceOrphan chk m fc fd (Block_dispose chk m) s1 p cb = Inr s6"
  shows "wfState s6" and "targetConnection (conns s6 p) = None"
    and "nextConn s1 \<le> nextConn s6"
    and "\<And>x. x < nextConn s1 \<Longrightarrow> targetConnection (conns s1 x) = None \<Longrightarrow>
           targetConnection (conns s6 x) = None"
proof -
  have "wfState s6 \<and> targetConnection (conns s6 p) = None \<and> nextConn s1 \<le> nextConn s6 \<and>
    (\<forall>x. x < nextConn s1 \<longrightarrow> targetConnection (conns s1 x) = None \<longrightarrow>
           targetConnection (conns s6 x) = None)"
  proof (cases "targetConnection (conns s1 p)")
    case None
    then have "s6 = s1" using dis by (simp add: displaceOrphan_def targetBlock_def)
    then show ?thesis using wf None by simp
  next
    case (Some t)
    let ?X = "getSourceBlock s1 t"
    let ?s2 = "setShadowDom s1 p None"
    have tb: "targetBlock s1 p = Some ?X" using Some by (simp add: targetBlock_def)
    have sh: "isShadow (blocks ?s2 ?X)" using occ[OF Some] by simp
    from dis tb sh obtain s3 sd where
      bd: "Block_dispose chk m ?s2 ?X = Inr s3" and e: "s6 = setShadowDom s3 p sd"
      by (auto simp add: displaceOrphan_def Let_def reattachOrphan_def split: sum.splits)
    have bd': "Block_dispose chk m ?s2 (getSourceBlock ?s2 t) = Inr s3" using bd by simp
    have h: "wfState ?s2" "targetConnection (conns ?s2 p) = Some t" "isSuperior ?s2 p"
      "shadowDom' (conns ?s2 p) = None"
      using wf Some p by simp_all
    note fr = Block_dispose_frees[OF h(1) ok h(2) h(3) h(4) bd']
    have "wfState s3" and df: "dframe ?s2 s3" and "targetConnection (conns s3 p) = None"
      using fr by simp_all
    moreover have "\<forall>x. x < nextConn s1 \<longrightarrow> targetConnection (conns s1 x) = None \<longrightarrow>
           targetConnection (conns s6 x) = None"
    proof (intro allI impI)
      fix x assume "x < nextConn s1" "targetConnection (conns s1 x) = None"
      with dframeD(3)[OF df, of x] show "targetConnection (conns s6 x) = None" by (simp add: e)
    qed
    moreover have "nextConn s1 \<le> nextConn s6" using dframeD(1)[OF df] by (simp add: e)
    ultimately show ?thesis by (simp add: e)
  qed
  then show "wfState s6" and "targetConnection (conns s6 p) = None"
    and "nextConn s1 \<le> nextConn s6"
    and "\<And>x. x < nextConn s1 \<Longrightarrow> targetConnection (conns s1 x) = None \<Longrightarrow>
           targetConnection (conns s6 x) = None"
    by simp_all
qed

lemma connect'_steps:
  assumes "connect' chk n s p c = Inr s'"
  obtains m s1 s6 where "n = Suc m"
    "(if isConnected s c then disconnect chk m s c else Inr s) = Inr s1"
    "displaceOrphan chk m (connect chk m) (disconnect chk m) (Block_dispose chk m) s1 p
       (getSourceBlock s c) = Inr s6"
    "s' = attach s6 p c (getSourceBlock s p) (getSourceBlock s c)"
proof -
  obtain m where n: "n = Suc m" using assms by (cases n) (simp_all add: zero_fuel)
  from assms n have "\<exists>s1 s6. (if isConnected s c then disconnect chk m s c else Inr s) = Inr s1 \<and>
    displaceOrphan chk m (connect chk m) (disconnect chk m) (Block_dispose chk m) s1 p
       (getSourceBlock s c) = Inr s6 \<and>
    s' = attach s6 p c (getSourceBlock s p) (getSourceBlock s c)"
    by (auto simp add: connect'_Suc connect'_body_alt split: sum.splits if_splits)
  with n that show ?thesis by blast
qed

text \<open>
  The attach sequence on a parent connection that is free or holds a placeholder: the
  store stays well-formed, and apart from the two connections being linked every free
  connection stays free, as does the former partner of the child when it has no template.
\<close>

lemma connect'_placeholder:
  assumes wf: "wfState s" and ok: "checkerOK chk"
    and al: "p < nextConn s" "c < nextConn s"
    and ty: "type (conns s c) = opposite (type (conns s p))"
    and sup: "isSuperior s p"
    and nl: "targetConnection (conns s p) \<noteq> Some c"
    and occ: "\<And>t. targetConnection (conns s p) = Some t \<Longrightarrow>
                 isShadow (blocks s (getSourceBlock s t))"
    and r: "connect' chk n s p c = Inr s'"
  shows "wfState s'"
    and "\<And>x. x < nextConn s \<Longrightarrow> x \<noteq> p \<Longrightarrow> x \<noteq> c \<Longrightarrow>
           targetConnection (conns s x) = None \<or>
           targetConnection (conns s x) = Some c \<and> shadowDom' (conns s x) = None \<Longrightarrow>
           targetConnection (conns s' x) = None"
proof -
  have wl: "wfLinks s" and wc: "wfConns s" using wf by (simp_all add: wfState_def)
  note i = isSuperior_inferior[OF sup ty]
  have pc: "p \<noteq> c" using ty by auto
  from r obtain m s1 s6 where n: "n = Suc m"
    and pre: "(if isConnected s c then disconnect chk m s c else Inr s) = Inr s1"
    and dis: "displaceOrphan chk m (connect chk m) (disconnect chk m) (Block_dispose chk m) s1 p
       (getSourceBlock s c) = Inr s6"
    and e: "s' = attach s6 p c (getSourceBlock s p) (getSourceBlock s c)"
    by (rule connect'_steps)
  have po: "preOK s c s1" by (rule pre_disconnect[OF wf ok al(2) i(2) pre])
  then have w1: "wfState s1" and d1: "dframe s s1" and f1: "frame s s1"
    and c1: "targetConnection (conns s1 c) = None"
    and same: "\<And>x. x < nextConn s \<Longrightarrow> x \<noteq> c \<Longrightarrow> targetConnection (conns s x) \<noteq> Some c \<Longrightarrow>
           conns s1 x = conns s x"
    and part: "\<And>x. x < nextConn s \<Longrightarrow> targetConnection (conns s x) = Some c \<Longrightarrow>
           shadowDom' (conns s x) = None \<Longrightarrow> targetConnection (conns s1 x) = None"
    unfolding preOK_def by blast+
  have p1: "conns s1 p = conns s p" using same[OF al(1) pc nl] .
  have n1: "nextConn s \<le> nextConn s1" using frameD(1)[OF f1] .
  have sup1: "isSuperior s1 p" using sup p1 by (simp add: isSuperior_def)
  have occ1: "\<And>t. targetConnection (conns s1 p) = Some t \<Longrightarrow>
                 isShadow (blocks s1 (getSourceBlock s1 t))"
  proof -
    fix t assume "targetConnection (conns s1 p) = Some t"
    then have l: "targetConnection (conns s p) = Some t" using p1 by simp
    note a = wfLinksD[OF wl l]
    have sb: "getSourceBlock s1 t = getSourceBlock s t"
      using frameD(4)[OF f1 a(2)] by (simp add: getSourceBlock_def)
    have "getSourceBlock s t < nextBlock s"
      using wfConnsD(1)[OF wc a(2)] by (simp add: getSourceBlock_def)
    from frameD(5)[OF f1 this] occ[OF l] sb
    show "isShadow (blocks s1 (getSourceBlock s1 t))" by simp
  qed
  have al1: "p < nextConn s1" using al(1) n1 by simp
  note ds = displaceOrphan_shadow[OF w1 ok al1 sup1 occ1 dis]
  have c6: "targetConnection (conns s6 c) = None"
    using ds(4)[of c] al(2) n1 c1 by simp
  have fs: "frame s s'" by (rule frame_connect'[OF r])
  have ty6: "\<And>x. x < nextConn s \<Longrightarrow> type (conns s6 x) = type (conns s x)"
    using frameD(3)[OF fs] by (simp add: e)
  show "wfState s'"
    unfolding e
  proof (rule wfState_attach[OF ds(1)])
    show "p < nextConn s6" "c < nextConn s6" using al n1 ds(3) by simp_all
    show "targetConnection (conns s6 p) = None" by (rule ds(2))
    show "targetConnection (conns s6 c) = None" by (rule c6)
    show "type (conns s6 c) = opposite (type (conns s6 p))" using ty6 al ty by simp
  qed
  fix x
  assume x: "x < nextConn s" "x \<noteq> p" "x \<noteq> c"
    and h: "targetConnection (conns s x) = None \<or>
           targetConnection (conns s x) = Some c \<and> shadowDom' (conns s x) = None"
  have "targetConnection (conns s1 x) = None"
    using h dframeD(3)[OF d1 x(1)] part[OF x(1)] by blast
  then have "targetConnection (conns s6 x) = None"
    using ds(4)[of x] x(1) n1 by simp
  then show "targetConnection (conns s' x) = None" using x by (simp add: e)
qed

text \<open>
  Re-homing the orphan: the nested \<open>connect\<close> of the orphan's connection \<open>t\<close> with the slot
  found at the end of the inserted row or stack frees the parent connection \<open>p\<close>.
\<close>

lemma rehome_connect:
  assumes wf: "wfState s2" and ok: "checkerOK chk"
    and l: "targetConnection (conns s2 p) = Some t" and sd: "shadowDom' (conns s2 p) = None"
    and ns: "\<not> isShadow (blocks s2 (getSourceBlock s2 t))"
    and c: "c < nextConn s2" "targetConnection (conns s2 c) = None" "c \<noteq> slot"
    and slot: "slot < nextConn s2" "isSuperior s2 slot"
      "type (conns s2 t) = opposite (type (conns s2 slot))"
    and occ: "\<And>u. targetConnection (conns s2 slot) = Some u \<Longrightarrow>
                 isShadow (blocks s2 (getSourceBlock s2 u))"
    and ab: "(a = t \<and> b = slot) \<or> (a = slot \<and> b = t)"
    and r: "connect chk m s2 a b = Inr s3" and acc: "chk s2 a b"
  shows "wfState s3" and "targetConnection (conns s3 p) = None"
    and "targetConnection (conns s3 c) = None" and "nextConn s2 \<le> nextConn s3"
proof -
  have wl: "wfLinks s2" using wf by (simp add: wfState_def)
  note a = wfLinksD[OF wl l]
  have ps: "p \<noteq> slot" using occ[of t] l ns by auto
  have nl: "targetConnection (conns s2 slot) \<noteq> Some t"
  proof
    assume "targetConnection (conns s2 slot) = Some t"
    from wfLinksD(3)[OF wl this] a(3) ps show False by simp
  qed
  have nt: "\<not> isSuperior s2 t" using isSuperior_inferior(2)[OF slot(2) slot(3)] .
  obtain k where m: "m = Suc k" using r by (cases m) (simp_all add: zero_fuel)
  have notnop: "targetConnection (conns s2 a) \<noteq> Some b"
    using ab a(3) ps nl by auto
  from r m notnop acc obtain u where
    u: "connect' chk k (beginGroup s2) slot t = Inr u" and e: "s3 = endGroup s2 u"
    using ab nt slot(2)
    by (auto simp add: connect_Suc connect_body_alt split: if_splits sum.splits)
  have occ': "\<And>u. targetConnection (conns (beginGroup s2) slot) = Some u \<Longrightarrow>
                 isShadow (blocks (beginGroup s2) (getSourceBlock (beginGroup s2) u))"
    using occ by simp
  have h: "wfState (beginGroup s2)" "slot < nextConn (beginGroup s2)" "t < nextConn (beginGroup s2)"
    "type (conns (beginGroup s2) t) = opposite (type (conns (beginGroup s2) slot))"
    "isSuperior (beginGroup s2) slot" "targetConnection (conns (beginGroup s2) slot) \<noteq> Some t"
    using wf slot a(2) nl by simp_all
  note cp = connect'_placeholder[OF h(1) ok h(2) h(3) h(4) h(5) h(6) occ' u]
  show "wfState s3" using cp(1) by (simp add: e)
  have "targetConnection (conns u p) = None"
    by (rule cp(2)) (use a ps l sd in simp_all)
  then show "targetConnection (conns s3 p) = None" by (simp add: e)
  have "c \<noteq> t" using a(3) c(2) by auto
  then have "targetConnection (conns u c) = None"
    by (intro cp(2)) (use c in simp_all)
  then show "targetConnection (conns s3 c) = None" by (simp add: e)
  from frameD(1)[OF frame_connect[OF r]] show "nextConn s2 \<le> nextConn s3" .
qed

lemma checkerOK_sym: "checkerOK chk \<Longrightarrow> chk s a b \<Longrightarrow> chk s b a"
  unfolding checkerOK_def by blast

lemma reattachOrphan_wf:
  assumes wf: "wfState s2" and ok: "checkerOK chk"
    and l: "targetConnection (conns s2 p) = Some t" and sd0: "shadowDom' (conns s2 p) = None"
    and ns: "\<not> isShadow (blocks s2 (getSourceBlock s2 t))" and sup: "isSuperior s2 p"
    and c: "c < nextConn s2" "targetConnection (conns s2 c) = None"
      "type (conns s2 c) = opposite (type (conns s2 p))"
    and cb: "cb < nextBlock s2"
    and r: "reattachOrphan chk m (connect chk m) fb s2 p cb (getSourceBlock s2 t) sd =
            Inr (s3, sd2, orph)"
  shows "(orph \<noteq> None \<and> s3 = s2) \<or>
         (orph = None \<and> wfState s3 \<and> targetConnection (conns s3 p) = None \<and>
          targetConnection (conns s3 c) = None \<and> nextConn s2 \<le> nextConn s3)"
proof -
  have wl: "wfLinks s2" and wc: "wfConns s2" using wf by (simp_all add: wfState_def)
  note a = wfLinksD[OF wl l]
  let ?X = "getSourceBlock s2 t"
  have X: "?X = sourceBlock' (conns s2 t)" by (simp add: getSourceBlock_def)
  show ?thesis
  proof (cases "type (conns s2 p) = INPUT_VALUE")
    case True
    then have tt: "type (conns s2 t) = OUTPUT_VALUE" using a(4) by simp
    have oc: "outputConnection (blocks s2 ?X) = Some t"
      using wfConnsD(2)[OF wc a(2) tt] X by simp
    have tc: "type (conns s2 c) = OUTPUT_VALUE" using c(3) True by simp
    show ?thesis
    proof (cases "lastConnectionInRow chk m s2 cb ?X")
      case (Inl e)
      with r ns True oc show ?thesis by (simp add: reattachOrphan_def)
    next
      case (Inr res)
      show ?thesis
      proof (cases res)
        case None
        with r ns True oc Inr show ?thesis by (auto simp add: reattachOrphan_def)
      next
        case (Some slot)
        with r ns True oc Inr have cn: "connect chk m s2 t slot = Inr s3" and o: "orph = None"
          by (auto simp add: reattachOrphan_def split: sum.splits)
        from Inr Some have lc: "lastConnectionInRow chk m s2 cb ?X = Inr (Some slot)" by simp
        from lastConnectionInRow_Some[OF lc wf cb] oc
        have s: "slot < nextConn s2" "type (conns s2 slot) = INPUT_VALUE" "chk s2 t slot"
          and occ: "\<And>nb. targetBlock s2 slot = Some nb \<Longrightarrow> isShadow (blocks s2 nb)"
          by auto
        have occ': "\<And>u. targetConnection (conns s2 slot) = Some u \<Longrightarrow>
                 isShadow (blocks s2 (getSourceBlock s2 u))"
          using occ by (simp add: targetBlock_def)
        have "c \<noteq> slot" using tc s(2) by auto
        from rehome_connect[OF wf ok l sd0 ns c(1) c(2) this s(1) _ _ occ' _ cn s(3)]
        show ?thesis using o s(2) tt by (simp add: isSuperior_def)
      qed
    qed
  next
    case False
    with sup have tp: "type (conns s2 p) = NEXT_STATEMENT" by (simp add: isSuperior_def)
    then have tt: "type (conns s2 t) = PREVIOUS_STATEMENT" using a(4) by simp
    have pc: "previousConnection (blocks s2 ?X) = Some t"
      using wfConnsD(3)[OF wc a(2) tt] X by simp
    have tc: "type (conns s2 c) = PREVIOUS_STATEMENT" using c(3) tp by simp
    show ?thesis
    proof (cases "lastNextConnection m s2 cb")
      case (Inl e)
      with r ns False tp pc show ?thesis by (simp add: reattachOrphan_def)
    next
      case (Inr res)
      show ?thesis
      proof (cases res)
        case None
        with r ns False tp pc Inr show ?thesis by (auto simp add: reattachOrphan_def)
      next
        case (Some nc)
        show ?thesis
        proof (cases "chk s2 t nc")
          case False
          with r ns tp pc Inr Some show ?thesis
            by (auto simp add: reattachOrphan_def split: if_splits)
        next
          case True
          with r ns tp pc Inr Some have cn: "connect chk m s2 nc t = Inr s3" and o: "orph = None"
            by (auto simp add: reattachOrphan_def split: sum.splits if_splits)
          from Inr Some have lc: "lastNextConnection m s2 cb = Inr (Some nc)" by simp
          from lastNextConnection_Some[OF lc wf cb]
          have s: "nc < nextConn s2" "type (conns s2 nc) = NEXT_STATEMENT"
            and occ: "\<And>nb. targetBlock s2 nc = Some nb \<Longrightarrow> isShadow (blocks s2 nb)"
            by auto
          have occ': "\<And>u. targetConnection (conns s2 nc) = Some u \<Longrightarrow>
                 isShadow (blocks s2 (getSourceBlock s2 u))"
            using occ by (simp add: targetBlock_def)
          have "c \<noteq> nc" using tc s(2) by auto
          from rehome_connect[OF wf ok l sd0 ns c(1) c(2) this s(1) _ _ occ' _ cn
              checkerOK_sym[OF ok True]]
          show ?thesis using o s(2) tt by (simp add: isSuperior_def)
        qed
      qed
    qed
  qed
qed

lemma setTimeout_proj [simp]:
  "conns (setTimeout s t) = conns s" "blocks (setTimeout s t) = blocks s"
  "nextConn (setTimeout s t) = nextConn s" "nextBlock (setTimeout s t) = nextBlock s"
  "recordUndo (setTimeout s t) = recordUndo s" "enabled (setTimeout s t) = enabled s"
  "group (setTimeout s t) = group s" "nextGroup (setTimeout s t) = nextGroup s"
  "fired (setTimeout s t) = fired s" "timers (setTimeout s t) = t # timers s"
  by (simp_all add: setTimeout_def)

lemma connect_cases:
  assumes "connect chk n s a b = Inr s'"
  obtains (nop) "s' = s" "targetConnection (conns s a) = Some b \<or> \<not> chk s a b"
  | (link) m p c u where "n = Suc m" "chk s a b" "targetConnection (conns s a) \<noteq> Some b"
      "hasConnectionChecker s a"
      "if isSuperior s a then p = a \<and> c = b else p = b \<and> c = a"
      "connect' chk m (beginGroup s) p c = Inr u" "s' = endGroup s u"
proof -
  obtain m where n: "n = Suc m" using assms by (cases n) (simp_all add: zero_fuel)
  from assms n have b: "connect_body chk (connect' chk m) s a b = Inr s'"
    by (simp add: connect_Suc)
  show ?thesis
  proof (cases "targetConnection (conns s a) = Some b \<or> \<not> chk s a b")
    case True
    with b have "s' = s" unfolding connect_body_alt by (simp split: if_splits)
    then show ?thesis using True by (rule nop)
  next
    case False
    then have nl: "targetConnection (conns s a) \<noteq> Some b" and acc: "chk s a b" by simp_all
    from b nl have hc: "hasConnectionChecker s a"
      unfolding connect_body_alt by (simp split: if_splits)
    define p where "p = (if isSuperior s a then a else b)"
    define c where "c = (if isSuperior s a then b else a)"
    from b nl acc hc have "(case connect' chk m (beginGroup s) p c of
           Inl e \<Rightarrow> Inl e | Inr s2 \<Rightarrow> Inr (endGroup s s2)) = Inr s'"
      unfolding connect_body_alt p_def c_def by (simp split: if_splits)
    then obtain u where u: "connect' chk m (beginGroup s) p c = Inr u" and e: "s' = endGroup s u"
      by (cases "connect' chk m (beginGroup s) p c") auto
    have "if isSuperior s a then p = a \<and> c = b else p = b \<and> c = a"
      by (simp add: p_def c_def)
    from n acc nl hc this u e show ?thesis by (rule link)
  qed
qed

text \<open>Step 2 of the attach sequence in general: afterwards the parent connection is free.\<close>

lemma displaceOrphan_wf:
  assumes wf: "wfState s1" and ok: "checkerOK chk"
    and p: "p < nextConn s1" "isSuperior s1 p"
    and c: "c < nextConn s1" "targetConnection (conns s1 c) = None"
      "type (conns s1 c) = opposite (type (conns s1 p))"
    and cb: "cb < nextBlock s1"
    and dis: "displaceOrphan chk m (connect chk m) (disconnect chk m) (Block_dispose chk m)
                s1 p cb = Inr s6"
  shows "wfState s6" and "targetConnection (conns s6 p) = None"
    and "targetConnection (conns s6 c) = None" and "nextConn s1 \<le> nextConn s6"
proof -
  have "wfState s6 \<and> targetConnection (conns s6 p) = None \<and>
        targetConnection (conns s6 c) = None \<and> nextConn s1 \<le> nextConn s6"
  proof (cases "\<forall>t. targetConnection (conns s1 p) = Some t \<longrightarrow>
                 isShadow (blocks s1 (getSourceBlock s1 t))")
    case True
    then have occ: "\<And>t. targetConnection (conns s1 p) = Some t \<Longrightarrow>
                 isShadow (blocks s1 (getSourceBlock s1 t))" by blast
    note ds = displaceOrphan_shadow[OF wf ok p occ dis]
    from ds(4)[of c] c ds(1,2,3) show ?thesis by simp
  next
    case False
    then obtain t where l: "targetConnection (conns s1 p) = Some t"
      and ns: "\<not> isShadow (blocks s1 (getSourceBlock s1 t))" by blast
    let ?X = "getSourceBlock s1 t"
    let ?s2 = "setShadowDom s1 p None"
    have tb: "targetBlock s1 p = Some ?X" using l by (simp add: targetBlock_def)
    from dis tb obtain s3 sd2 orph s5 where
      ra: "reattachOrphan chk m (connect chk m) (Block_dispose chk m) ?s2 p cb ?X
             (getShadowDom s1 p) = Inr (s3, sd2, orph)"
      and tl: "(case orph of None \<Rightarrow> Inr s3
             | Some ob \<Rightarrow> (case disconnect chk m s3 p of Inl e \<Rightarrow> Inl e
                 | Inr s4 \<Rightarrow> Inr (if recordUndo s4
                                 then setTimeout s4 (Bump ob p (group s4)) else s4))) = Inr s5"
      and e: "s6 = setShadowDom s5 p sd2"
      by (auto simp add: displaceOrphan_def Let_def split: sum.splits prod.splits)
    have h: "wfState ?s2" "targetConnection (conns ?s2 p) = Some t"
      "shadowDom' (conns ?s2 p) = None" "\<not> isShadow (blocks ?s2 (getSourceBlock ?s2 t))"
      "isSuperior ?s2 p" "c < nextConn ?s2" "targetConnection (conns ?s2 c) = None"
      "type (conns ?s2 c) = opposite (type (conns ?s2 p))" "cb < nextBlock ?s2"
      using wf l ns p c cb by simp_all
    have ra': "reattachOrphan chk m (connect chk m) (Block_dispose chk m) ?s2 p cb
             (getSourceBlock ?s2 t) (getShadowDom s1 p) = Inr (s3, sd2, orph)"
      using ra by simp
    from reattachOrphan_wf[OF h(1) ok h(2) h(3) h(4) h(5) h(6) h(7) h(8) h(9) ra']
    have "wfState s5 \<and> targetConnection (conns s5 p) = None \<and>
        targetConnection (conns s5 c) = None \<and> nextConn s1 \<le> nextConn s5"
    proof (elim disjE conjE)
      assume o: "orph = None" and r: "wfState s3" "targetConnection (conns s3 p) = None"
        "targetConnection (conns s3 c) = None" "nextConn ?s2 \<le> nextConn s3"
      from tl o have "s5 = s3" by simp
      with r show ?thesis by simp
    next
      assume o: "orph \<noteq> None" and s3: "s3 = ?s2"
      then obtain ob where ob: "orph = Some ob" by auto
      from tl ob s3 obtain s4 where dc: "disconnect chk m ?s2 p = Inr s4"
        and s5: "s5 = (if recordUndo s4 then setTimeout s4 (Bump ob p (group s4)) else s4)"
        by (auto split: sum.splits)
      from disconnect_result[OF dc] have d: "disconnected chk ?s2 p = Inr s4" .
      have wl: "wfLinks ?s2" using h(1) by (simp add: wfState_def)
      note a = wfLinksD[OF wl h(2)]
      have "disconnected chk ?s2 p = Inr (endGroup ?s2 (detach (beginGroup ?s2) p t
                (if isSuperior ?s2 p then getSourceBlock ?s2 t else getSourceBlock ?s2 p)))"
        by (rule disconnected_no_respawn[OF h(2) a(3)]) (use h(5) in \<open>simp add: getShadowDom_def\<close>)
      with d have s4: "s4 = endGroup ?s2 (detach (beginGroup ?s2) p t
                (if isSuperior ?s2 p then getSourceBlock ?s2 t else getSourceBlock ?s2 p))"
        by simp
      have "wfState s4" by (rule wfState_disconnected[OF h(1) ok d])
      moreover have "targetConnection (conns s4 p) = None" by (simp add: s4)
      moreover have "targetConnection (conns s4 c) = None" using c(2) by (simp add: s4)
      moreover have "nextConn s1 \<le> nextConn s4" by (simp add: s4)
      ultimately show ?thesis by (simp add: s5)
    qed
    then show ?thesis by (simp add: e)
  qed
  then show "wfState s6" and "targetConnection (conns s6 p) = None"
    and "targetConnection (conns s6 c) = None" and "nextConn s1 \<le> nextConn s6"
    by simp_all
qed

text \<open>The attach sequence and \<open>connect\<close> keep the store well-formed.\<close>

lemma connect'_wf:
  assumes wf: "wfState s" and ok: "checkerOK chk"
    and al: "p < nextConn s" "c < nextConn s"
    and ty: "type (conns s c) = opposite (type (conns s p))"
    and sup: "isSuperior s p"
    and nl: "targetConnection (conns s p) \<noteq> Some c"
    and r: "connect' chk n s p c = Inr s'"
  shows "wfState s'"
proof -
  have wc: "wfConns s" using wf by (simp add: wfState_def)
  note i = isSuperior_inferior[OF sup ty]
  have pc: "p \<noteq> c" using ty by auto
  from r obtain m s1 s6 where n: "n = Suc m"
    and pre: "(if isConnected s c then disconnect chk m s c else Inr s) = Inr s1"
    and dis: "displaceOrphan chk m (connect chk m) (disconnect chk m) (Block_dispose chk m) s1 p
       (getSourceBlock s c) = Inr s6"
    and e: "s' = attach s6 p c (getSourceBlock s p) (getSourceBlock s c)"
    by (rule connect'_steps)
  have po: "preOK s c s1" by (rule pre_disconnect[OF wf ok al(2) i(2) pre])
  then have w1: "wfState s1" and f1: "frame s s1"
    and c1: "targetConnection (conns s1 c) = None"
    and same: "\<And>x. x < nextConn s \<Longrightarrow> x \<noteq> c \<Longrightarrow> targetConnection (conns s x) \<noteq> Some c \<Longrightarrow>
           conns s1 x = conns s x"
    unfolding preOK_def by blast+
  have p1: "conns s1 p = conns s p" using same[OF al(1) pc nl] .
  have n1: "nextConn s \<le> nextConn s1" "nextBlock s \<le> nextBlock s1" using frameD(1,2)[OF f1] .
  have sup1: "isSuperior s1 p" using sup p1 by (simp add: isSuperior_def)
  have ty1: "type (conns s1 c) = opposite (type (conns s1 p))"
    using ty frameD(3)[OF f1 al(1)] frameD(3)[OF f1 al(2)] by simp
  have cb: "getSourceBlock s c < nextBlock s1"
    using wfConnsD(1)[OF wc al(2)] n1 by (simp add: getSourceBlock_def)
  have al1: "p < nextConn s1" "c < nextConn s1" using al n1 by simp_all
  note ds = displaceOrphan_wf[OF w1 ok al1(1) sup1 al1(2) c1 ty1 cb dis]
  have fs: "frame s s'" by (rule frame_connect'[OF r])
  have ty6: "\<And>x. x < nextConn s \<Longrightarrow> type (conns s6 x) = type (conns s x)"
    using frameD(3)[OF fs] by (simp add: e)
  show "wfState s'"
    unfolding e
  proof (rule wfState_attach[OF ds(1)])
    show "p < nextConn s6" "c < nextConn s6" using al1 ds(4) by simp_all
    show "targetConnection (conns s6 p) = None" by (rule ds(2))
    show "targetConnection (conns s6 c) = None" by (rule ds(3))
    show "type (conns s6 c) = opposite (type (conns s6 p))" using ty6 al ty by simp
  qed
qed

lemma connect_wf:
  assumes wf: "wfState s" and ok: "checkerOK chk"
    and al: "a < nextConn s" "b < nextConn s"
    and r: "connect chk n s a b = Inr s'"
  shows "wfState s'"
  using r
proof (cases rule: connect_cases)
  case nop
  then show ?thesis using wf by simp
next
  case (link m p c u)
  have wl: "wfLinks s" using wf by (simp add: wfState_def)
  note ty = checkerOK_type[OF ok link(2)]
  have nl': "targetConnection (conns s b) \<noteq> Some a"
  proof
    assume "targetConnection (conns s b) = Some a"
    from wfLinksD(3)[OF wl this] link(3) show False by simp
  qed
  have sb: "\<not> isSuperior s a \<Longrightarrow> isSuperior s b"
    using ty(1) by (cases "type (conns s a)") (auto simp add: isSuperior_def)
  have ty': "type (conns s c) = opposite (type (conns s p))"
    using link(5) ty(1) ty(2) by (cases "isSuperior s a") simp_all
  have h: "wfState (beginGroup s)" "p < nextConn (beginGroup s)" "c < nextConn (beginGroup s)"
    "type (conns (beginGroup s) c) = opposite (type (conns (beginGroup s) p))"
    "isSuperior (beginGroup s) p" "targetConnection (conns (beginGroup s) p) \<noteq> Some c"
    using wf al link(5) ty' sb link(3) nl' by (auto split: if_splits)
  have "wfState u"
    by (rule connect'_wf[OF h(1) ok h(2) h(3) h(4) h(5) h(6) link(6)])
  then show ?thesis by (simp add: link(7))
qed

section \<open>Frame of the protocol at a throw\<close>

lemma throws1D: "throws1 f \<Longrightarrow> f s x = Inl (e, s') \<Longrightarrow> frame s s'"
  unfolding throws1_def by blast

lemma throws2D: "throws2 f \<Longrightarrow> f s x y = Inl (e, s') \<Longrightarrow> frame s s'"
  unfolding throws2_def by blast

lemma frame_beginGroup: "frame s (beginGroup s)"
  by (simp add: frame_def beginGroup_def Events_setGroup_def)

lemma frame_from_beginGroup: "frame (beginGroup s) t \<Longrightarrow> frame s t"
  using frame_beginGroup frame_trans by blast

lemma connect_body_throw:
  assumes "throws2 fc'"
  shows "throws2 (connect_body chk fc')"
  unfolding throws2_def connect_body_alt
  by (auto split: if_splits sum.splits
      intro: frame_refl frame_from_beginGroup throws2D[OF assms])

lemma disconnect_body_throw:
  assumes "throws1 fr"
  shows "throws1 (disconnect_body fr)"
  unfolding throws1_def disconnect_body_alt
proof (intro allI impI)
  fix s x e s'
  assume h: "(case targetConnection (conns s x) of
        None \<Rightarrow> Inl (SourceNotConnected, s)
      | Some otherConnection \<Rightarrow>
          if targetConnection (conns s otherConnection) \<noteq> Some x
          then Inl (TargetNotConnected, s)
          else
            (case fr
                    (detach (beginGroup s) x otherConnection
                       (if isSuperior s x then getSourceBlock s otherConnection
                        else getSourceBlock s x))
                    (if isSuperior s x then x else otherConnection) of
               Inl e \<Rightarrow> Inl e
             | Inr s3 \<Rightarrow> Inr (endGroup s s3))) = Inl (e, s')"
  then have "s' = s \<or> (\<exists>other. fr (detach (beginGroup s) x other
                       (if isSuperior s x then getSourceBlock s other
                        else getSourceBlock s x))
                    (if isSuperior s x then x else other) = Inl (e, s'))"
    by (auto split: option.splits if_splits sum.splits)
  then show "frame s s'"
  proof (elim disjE exE)
    assume "s' = s"
    then show ?thesis by (simp add: frame_refl)
  next
    fix other
    assume "fr (detach (beginGroup s) x other
                       (if isSuperior s x then getSourceBlock s other
                        else getSourceBlock s x))
                    (if isSuperior s x then x else other) = Inl (e, s')"
    from throws1D[OF assms this] have "frame (beginGroup s) s'"
      using frame_detach frame_trans by blast
    then show ?thesis by (rule frame_from_beginGroup)
  qed
qed

lemma respawnShadow'_body_throw:
  assumes "throws2 fc"
  shows "throws1 (respawnShadow'_body fc)"
  unfolding throws1_def
proof (intro allI impI)
  fix s x e s'
  assume h: "respawnShadow'_body fc s x = Inl (e, s')"
  show "frame s s'"
  proof (cases "workspace (blocks s (getSourceBlock s x)) \<and> getShadowDom s x \<noteq> None \<and> recordUndo s")
    case False
    with h show ?thesis by (auto simp add: respawnShadow'_body_def Let_def split: if_splits)
  next
    case True
    then obtain d where d: "getShadowDom s x = Some d" by auto
    obtain s1 b where sb: "Xml_domToBlock s d = (s1, b)" by (cases "Xml_domToBlock s d")
    have f1: "frame s s1" using frame_domToBlock[of s d] sb by simp
    from h True d sb have "s' = s1 \<or> (\<exists>y. fc s1 x y = Inl (e, s'))"
      by (auto simp add: respawnShadow'_body_def Let_def split: option.splits)
    then show ?thesis
    proof (elim disjE exE)
      assume "s' = s1"
      with f1 show ?thesis by simp
    next
      fix y assume "fc s1 x y = Inl (e, s')"
      then have "frame s1 s'" by (rule throws2D[OF assms])
      with f1 show ?thesis by (rule frame_trans)
    qed
  qed
qed

lemma forEachE_throw:
  assumes "\<And>x s s'. f x s = Inr s' \<Longrightarrow> frame s s'"
    and "\<And>x s e s'. f x s = Inl (e, s') \<Longrightarrow> frame s s'"
  shows "forEachE f xs s = Inl (e, s') \<Longrightarrow> frame s s'"
proof (induction xs arbitrary: s)
  case Nil
  then show ?case by simp
next
  case (Cons x xs)
  show ?case
  proof (cases "f x s")
    case (Inl a)
    with Cons.prems have "f x s = Inl (e, s')" by simp
    then show ?thesis by (rule assms(2))
  next
    case (Inr s1)
    with Cons.prems have "forEachE f xs s1 = Inl (e, s')" by simp
    from assms(1)[OF Inr] Cons.IH[OF this] show ?thesis by (rule frame_trans)
  qed
qed

lemma Block_unplug_body_throw:
  assumes "throws1 fd"
  shows "throws1 (Block_unplug_body fd)"
  unfolding throws1_def Block_unplug_body_def
  by (auto split: option.splits if_splits intro: throws1D[OF assms])

lemma dispose_body_throw:
  assumes "throws1 fb" "throws1 fu"
  shows "throws1 (dispose_body fb fu)"
  unfolding throws1_def
proof (intro allI impI)
  fix s x e s'
  assume "dispose_body fb fu s x = Inl (e, s')"
  then have "s' = setShadowDom s x None \<or> (\<exists>tb. fb (setShadowDom s x None) tb = Inl (e, s')) \<or>
            (\<exists>tb. fu (setShadowDom s x None) tb = Inl (e, s'))"
    by (auto simp add: dispose_body_def Let_def split: sum.splits if_splits option.splits)
  then show "frame s s'"
    using frame_setShadowDom frame_trans[OF frame_setShadowDom] throws1D[OF assms(1)]
      throws1D[OF assms(2)]
    by blast
qed

lemma Block_dispose_body_throw:
  assumes "frames1 fu" "throws1 fu" "frames1 fd" "throws1 fd"
  shows "throws1 (Block_dispose_body fu fd)"
  unfolding throws1_def Block_dispose_body_def
proof (intro allI impI)
  fix s x e s'
  assume h: "(case fu s x of Inl e \<Rightarrow> Inl e
        | Inr s1 \<Rightarrow>
            forEachE (\<lambda>c t. fd t c) (getConnections s1 x)
             (updBlock s1 x (\<lambda>k. k\<lparr>workspace := False\<rparr>))) = Inl (e, s')"
  show "frame s s'"
  proof (cases "fu s x")
    case (Inl a)
    with h have "fu s x = Inl (e, s')" by simp
    then show ?thesis by (rule throws1D[OF assms(2)])
  next
    case (Inr s1)
    with h have 2: "forEachE (\<lambda>c t. fd t c) (getConnections s1 x)
             (updBlock s1 x (\<lambda>k. k\<lparr>workspace := False\<rparr>)) = Inl (e, s')" by simp
    have "frame (updBlock s1 x (\<lambda>k. k\<lparr>workspace := False\<rparr>)) s'"
      using 2
      by (rule forEachE_throw[rotated 2]) (erule frames1D[OF assms(3)], erule throws1D[OF assms(4)])
    then show ?thesis
      using frames1D[OF assms(1) Inr] frame_workspace frame_trans by blast
  qed
qed

lemma reattachOrphan_throw:
  assumes "throws2 fc" "throws1 fb"
    and "reattachOrphan chk n fc fb s2 p cb ob sd = Inl (e, s3)"
  shows "frame s2 s3"
  using assms(3) unfolding reattachOrphan_def
  by (auto split: if_splits sum.splits option.splits
      intro: frame_refl throws2D[OF assms(1)] throws1D[OF assms(2)])

lemma displaceOrphan_throw:
  assumes "frames2 fc" "frames1 fd" "frames1 fb" "throws2 fc" "throws1 fd" "throws1 fb"
    and h: "displaceOrphan chk n fc fd fb s1 p cb = Inl (e, s')"
  shows "frame s1 s'"
proof (cases "targetBlock s1 p")
  case None
  with h show ?thesis by (simp add: displaceOrphan_def)
next
  case (Some ob)
  let ?s2 = "setShadowDom s1 p None"
  let ?r = "reattachOrphan chk n fc fb ?s2 p cb ob (getShadowDom s1 p)"
  show ?thesis
  proof (cases ?r)
    case (Inl a)
    with h Some have "?r = Inl (e, s')"
      by (simp add: displaceOrphan_def Let_def)
    from reattachOrphan_throw[OF assms(4) assms(6) this] show ?thesis
      using frame_setShadowDom frame_trans by blast
  next
    case (Inr t)
    obtain s3 sd2 orph where t: "t = (s3, sd2, orph)" by (cases t)
    have 1: "frame s1 s3"
      using reattachOrphan_frame[OF assms(1) assms(3) Inr[unfolded t]] frame_setShadowDom
        frame_trans by blast
    from h Some Inr t obtain ob' where "orph = Some ob'" and "fd s3 p = Inl (e, s')"
      by (auto simp add: displaceOrphan_def Let_def split: sum.splits option.splits)
    from throws1D[OF assms(5) this(2)] 1 show ?thesis using frame_trans by blast
  qed
qed

lemma connect'_body_throw:
  assumes "frames2 fc" "frames1 fd" "frames1 fb" "throws2 fc" "throws1 fd" "throws1 fb"
  shows "throws2 (connect'_body chk n fc fd fb)"
  unfolding throws2_def connect'_body_alt
proof (intro allI impI)
  fix s p c e s'
  assume h: "(case if isConnected s c then fd s c else Inr s of Inl e \<Rightarrow> Inl e
        | Inr s1 \<Rightarrow>
            (case displaceOrphan chk n fc fd fb s1 p (getSourceBlock s c) of
               Inl e \<Rightarrow> Inl e
             | Inr s6 \<Rightarrow> Inr (attach s6 p c (getSourceBlock s p) (getSourceBlock s c)))) = Inl (e, s')"
  show "frame s s'"
  proof (cases "if isConnected s c then fd s c else Inr s")
    case (Inl a)
    with h have "fd s c = Inl (e, s')" by (auto split: if_splits)
    then show ?thesis by (rule throws1D[OF assms(5)])
  next
    case (Inr s1)
    then have 1: "frame s s1" using frames1D[OF assms(2)] frame_refl by (auto split: if_splits)
    from h Inr have "displaceOrphan chk n fc fd fb s1 p (getSourceBlock s c) = Inl (e, s')"
      by (auto split: sum.splits)
    from displaceOrphan_throw[OF assms this] 1 show ?thesis using frame_trans by blast
  qed
qed

lemma exec_throw: "exec chk n c s = Inl (e, s') \<Longrightarrow> frame s s'"
proof -
  have fr: "frames2 (connect chk m)" "frames2 (connect' chk m)" "frames1 (disconnect chk m)"
    "frames1 (respawnShadow' chk m)" "frames1 (dispose chk m)"
    "frames1 (Block_unplug chk m)" "frames1 (Block_dispose chk m)" for m
    unfolding frames1_def frames2_def connect_def connect'_def disconnect_def
      respawnShadow'_def dispose_def Block_unplug_def Block_dispose_def
    using exec_frame by blast+
  have "throws2 (connect chk n) \<and> throws2 (connect' chk n) \<and> throws1 (disconnect chk n) \<and>
        throws1 (respawnShadow' chk n) \<and> throws1 (dispose chk n) \<and>
        throws1 (Block_unplug chk n) \<and> throws1 (Block_dispose chk n)"
  proof (induction n)
    case 0
    show ?case by (simp add: throws1_def throws2_def zero_fuel frame_refl)
  next
    case (Suc n)
    have eqs: "connect chk (Suc n) = connect_body chk (connect' chk n)"
      "connect' chk (Suc n) = connect'_body chk n (connect chk n) (disconnect chk n) (Block_dispose chk n)"
      "disconnect chk (Suc n) = disconnect_body (respawnShadow' chk n)"
      "respawnShadow' chk (Suc n) = respawnShadow'_body (connect chk n)"
      "dispose chk (Suc n) = dispose_body (Block_dispose chk n) (Block_unplug chk n)"
      "Block_unplug chk (Suc n) = Block_unplug_body (disconnect chk n)"
      "Block_dispose chk (Suc n) = Block_dispose_body (Block_unplug chk n) (dispose chk n)"
      by (intro ext, simp add: connect_Suc connect'_Suc disconnect_Suc respawnShadow'_Suc
          dispose_Suc Block_unplug_Suc Block_dispose_Suc)+
    show ?case
      unfolding eqs using Suc fr
      by (intro conjI connect_body_throw connect'_body_throw disconnect_body_throw
          respawnShadow'_body_throw dispose_body_throw Block_unplug_body_throw
          Block_dispose_body_throw) simp_all
  qed
  then show "exec chk n c s = Inl (e, s') \<Longrightarrow> frame s s'"
    by (cases c) (auto simp add: throws1_def throws2_def connect_def connect'_def disconnect_def
        respawnShadow'_def dispose_def Block_unplug_def Block_dispose_def)
qed

lemma exec_final_frame: "frame s (finalState (exec chk n c s))"
proof (cases "exec chk n c s")
  case (Inl a)
  obtain e t where "a = (e, t)" by (cases a)
  with Inl exec_throw[of chk n c s e t] show ?thesis by (simp add: finalState_def)
next
  case (Inr t)
  with exec_frame[of chk n c s t] show ?thesis by (simp add: finalState_def)
qed

section \<open>The event group of a call\<close>

lemma frames_protocol:
  "frames2 (connect chk m)" "frames2 (connect' chk m)" "frames1 (disconnect chk m)"
  "frames1 (respawnShadow' chk m)" "frames1 (dispose chk m)"
  "frames1 (Block_unplug chk m)" "frames1 (Block_dispose chk m)"
  unfolding frames1_def frames2_def connect_def connect'_def disconnect_def
    respawnShadow'_def dispose_def Block_unplug_def Block_dispose_def
  using exec_frame by blast+

lemma beginGroup_simps [simp]:
  "group (beginGroup s) \<noteq> None"
  "fired (beginGroup s) = fired s"
  "enabled (beginGroup s) = enabled s"
  "group s = None \<Longrightarrow> group (beginGroup s) = Some (nextGroup s)"
  "group s = None \<Longrightarrow> nextGroup (beginGroup s) = Suc (nextGroup s)"
  "group s \<noteq> None \<Longrightarrow> beginGroup s = s"
  by (auto simp add: beginGroup_def Events_setGroup_def)

lemma open_bracket_group:
  assumes "group s = None" "frame (beginGroup s) t"
  shows "group t = Some (nextGroup s) \<and> ownGroup s t"
proof -
  from frame_open_group[OF assms(2), of "nextGroup s"] assms(1)
  have 1: "group t = Some (nextGroup s)" "nextGroup t = Suc (nextGroup s)"
    "recordedIn (Some (nextGroup s)) (beginGroup s) t"
    by simp_all
  from 1(3) have "recordedIn (Some (nextGroup s)) s t"
    by (simp add: recordedIn_def newEvents_def)
  with 1 show ?thesis by (simp add: ownGroup_def)
qed

lemma connect_returns_group:
  assumes c: "connect chk n s a b = Inr s'" and None: "group s = None"
  shows "group s' = None \<and>
         (if targetConnection (conns s a) = Some b \<or> \<not> chk s a b then s' = s
          else ownGroup s s')"
proof -
  obtain m where n: "n = Suc m"
    using c by (cases n) (simp_all add: zero_fuel)
  from c n have b: "connect_body chk (connect' chk m) s a b = Inr s'"
    by (simp add: connect_Suc)
  show ?thesis
  proof (cases "targetConnection (conns s a) = Some b \<or> \<not> chk s a b")
    case True
    with b have "s' = s" unfolding connect_body_alt by (auto split: if_splits)
    with True None show ?thesis by simp
  next
    case False
    with b obtain x y t where 1: "connect' chk m (beginGroup s) x y = Inr t"
      and 2: "s' = endGroup s t"
      unfolding connect_body_alt by (auto split: if_splits sum.splits)
    from 1 have "frame (beginGroup s) t"
      unfolding connect'_def by (rule exec_frame)
    from bracket_fresh_group[OF None this] False show ?thesis
      unfolding 2 by (simp add: ownGroup_def)
  qed
qed

lemma connect_throws_group:
  assumes c: "connect chk n s a b = Inl (e, s')" and None: "group s = None"
  shows "if n = 0 \<or> \<not> hasConnectionChecker s a then s' = s
         else group s' = Some (nextGroup s) \<and> ownGroup s s'"
proof (cases n)
  case 0
  with c show ?thesis by (simp add: zero_fuel)
next
  case (Suc m)
  with c have b: "connect_body chk (connect' chk m) s a b = Inl (e, s')"
    by (simp add: connect_Suc)
  show ?thesis
  proof (cases "hasConnectionChecker s a")
    case False
    with b have "s' = s" unfolding connect_body_alt by (auto split: if_splits)
    with False show ?thesis by simp
  next
    case True
    with b obtain x y where "connect' chk m (beginGroup s) x y = Inl (e, s')"
      unfolding connect_body_alt by (auto split: if_splits sum.splits)
    then have "frame (beginGroup s) s'"
      unfolding connect'_def by (rule exec_throw)
    from open_bracket_group[OF None this] True Suc show ?thesis by simp
  qed
qed

lemma disconnect_steps:
  assumes "linkedBack s a"
  shows "\<exists>q. targetConnection (conns s a) = Some q \<and>
    disconnect chk (Suc m) s a =
      (case respawnShadow' chk m
                 (detach (beginGroup s) a q
                    (if isSuperior s a then getSourceBlock s q else getSourceBlock s a))
                 (if isSuperior s a then a else q) of
            Inl e \<Rightarrow> Inl e
          | Inr s3 \<Rightarrow> Inr (endGroup s s3))"
proof -
  from assms obtain q where q: "targetConnection (conns s a) = Some q"
    "targetConnection (conns s q) = Some a"
    by (cases "targetConnection (conns s a)") (simp_all add: linkedBack_def)
  then show ?thesis
    by (simp add: disconnect_Suc disconnect_body_alt)
qed

lemma disconnect_not_linkedBack:
  assumes "\<not> linkedBack s a" "disconnect chk n s a = r"
  shows "\<exists>e. r = Inl (e, s)"
proof (cases n)
  case 0
  with assms(2) show ?thesis by (auto simp add: zero_fuel)
next
  case (Suc m)
  with assms show ?thesis
    by (auto simp add: disconnect_Suc disconnect_body_alt linkedBack_def split: option.splits)
qed

lemma disconnect_returns_group:
  assumes c: "disconnect chk n s a = Inr s'" and None: "group s = None"
  shows "group s' = None \<and> ownGroup s s'"
  using disconnect_fresh_group[OF c None] by (simp add: ownGroup_def)

lemma disconnect_throws_group:
  assumes c: "disconnect chk n s a = Inl (e, s')" and None: "group s = None"
  shows "if n = 0 \<or> \<not> linkedBack s a then s' = s
         else group s' = Some (nextGroup s) \<and> ownGroup s s'"
proof (cases "n = 0 \<or> \<not> linkedBack s a")
  case True
  then have "s' = s"
  proof
    assume "n = 0"
    with c show ?thesis by (simp add: zero_fuel)
  next
    assume "\<not> linkedBack s a"
    from disconnect_not_linkedBack[OF this c] show ?thesis by simp
  qed
  with True show ?thesis by simp
next
  case False
  then obtain m where n: "n = Suc m" and lb: "linkedBack s a" by (cases n) auto
  from c n have c': "disconnect chk (Suc m) s a = Inl (e, s')" by simp
  from disconnect_steps[OF lb, of chk m] obtain q where
    eq: "disconnect chk (Suc m) s a =
      (case respawnShadow' chk m
                 (detach (beginGroup s) a q
                    (if isSuperior s a then getSourceBlock s q else getSourceBlock s a))
                 (if isSuperior s a then a else q) of
            Inl e \<Rightarrow> Inl e
          | Inr s3 \<Rightarrow> Inr (endGroup s s3))"
    by blast
  have r: "respawnShadow' chk m
                 (detach (beginGroup s) a q
                    (if isSuperior s a then getSourceBlock s q else getSourceBlock s a))
                 (if isSuperior s a then a else q) = Inl (e, s')"
    using c'[unfolded eq]
    by (cases "respawnShadow' chk m
                 (detach (beginGroup s) a q
                    (if isSuperior s a then getSourceBlock s q else getSourceBlock s a))
                 (if isSuperior s a then a else q)") simp_all
  then have "frame (detach (beginGroup s) a q
                    (if isSuperior s a then getSourceBlock s q else getSourceBlock s a)) s'"
    unfolding respawnShadow'_def by (rule exec_throw)
  then have "frame (beginGroup s) s'"
    using frame_detach frame_trans by blast
  from open_bracket_group[OF None this] False show ?thesis by simp
qed

lemma frame_fired_grows:
  assumes "frame s t" "group s \<noteq> None"
  shows "length (fired s) \<le> length (fired t)"
  using assms by (auto simp add: frame_def)

lemma newEvents_nonempty:
  "length (fired s) < length (fired s') \<Longrightarrow> newEvents s s' \<noteq> []"
  by (auto simp add: newEvents_def)

lemma fired_endGroup [simp]: "fired (endGroup s t) = fired t"
  by (simp add: endGroup_def Events_setGroup_def)

lemma disconnect_fires:
  assumes c: "disconnect chk n s a = Inr s'" and en: "enabled s"
  shows "newEvents s s' \<noteq> []"
proof -
  obtain m where n: "n = Suc m"
    using c by (cases n) (simp_all add: zero_fuel)
  have lb: "linkedBack s a"
    using disconnect_not_linkedBack[OF _ c] by auto
  from c n have c': "disconnect chk (Suc m) s a = Inr s'" by simp
  from disconnect_steps[OF lb, of chk m] obtain q where
    eq: "disconnect chk (Suc m) s a =
      (case respawnShadow' chk m
                 (detach (beginGroup s) a q
                    (if isSuperior s a then getSourceBlock s q else getSourceBlock s a))
                 (if isSuperior s a then a else q) of
            Inl e \<Rightarrow> Inl e
          | Inr s3 \<Rightarrow> Inr (endGroup s s3))"
    by blast
  obtain t where r: "respawnShadow' chk m
                 (detach (beginGroup s) a q
                    (if isSuperior s a then getSourceBlock s q else getSourceBlock s a))
                 (if isSuperior s a then a else q) = Inr t"
    and e: "s' = endGroup s t"
    using c'[unfolded eq]
    by (cases "respawnShadow' chk m
                 (detach (beginGroup s) a q
                    (if isSuperior s a then getSourceBlock s q else getSourceBlock s a))
                 (if isSuperior s a then a else q)") simp_all
  let ?d = "detach (beginGroup s) a q
                    (if isSuperior s a then getSourceBlock s q else getSourceBlock s a)"
  have f: "frame ?d t"
    using r unfolding respawnShadow'_def by (rule exec_frame)
  have "group ?d = group (beginGroup s)"
    by (simp add: detach_def Let_def Events_fire_def Block_setParent_def updBlock_def updConn_def)
  then have g: "group ?d \<noteq> None"
    using beginGroup_simps(1)[of s] by simp
  have "length (fired ?d) = Suc (length (fired s))"
    using en
    by (simp add: detach_def Let_def Events_fire_def Block_setParent_def updBlock_def updConn_def)
  with frame_fired_grows[OF f g] have "length (fired s) < length (fired s')"
    unfolding e by simp
  then show ?thesis by (rule newEvents_nonempty)
qed

lemma connect_fires:
  assumes c: "connect chk n s a b = Inr s'" and en: "enabled s"
    and l: "targetConnection (conns s a) \<noteq> Some b" "chk s a b"
  shows "newEvents s s' \<noteq> []"
proof -
  obtain m where n: "n = Suc m"
    using c by (cases n) (simp_all add: zero_fuel)
  from c n have b: "connect_body chk (connect' chk m) s a b = Inr s'"
    by (simp add: connect_Suc)
  with l obtain x y t where 1: "connect' chk m (beginGroup s) x y = Inr t"
    and 2: "s' = endGroup s t"
    unfolding connect_body_alt by (auto split: if_splits sum.splits)
  obtain k where m: "m = Suc k"
    using 1 by (cases m) (simp_all add: zero_fuel)
  let ?b = "beginGroup s"
  from 1 m have "connect'_body chk k (connect chk k) (disconnect chk k) (Block_dispose chk k)
      ?b x y = Inr t"
    by (simp add: connect'_Suc)
  then obtain s1 s6 where 3: "(if isConnected ?b y then disconnect chk k ?b y else Inr ?b) = Inr s1"
    and 4: "displaceOrphan chk k (connect chk k) (disconnect chk k) (Block_dispose chk k) s1 x
              (getSourceBlock ?b y) = Inr s6"
    and 5: "t = attach s6 x y (getSourceBlock ?b x) (getSourceBlock ?b y)"
    unfolding connect'_body_alt by (auto split: sum.splits)
  have "frame ?b s1"
    using 3 frames1D[OF frames_protocol(3)] frame_refl by (auto split: if_splits)
  moreover have "frame s1 s6"
    by (rule displaceOrphan_frame[OF frames_protocol(1) frames_protocol(3) frames_protocol(7) 4])
  ultimately have f: "frame ?b s6" by (rule frame_trans)
  then have "enabled s6" using en by (simp add: frame_def)
  then have "length (fired t) = Suc (length (fired s6))"
    unfolding 5
    by (simp add: attach_def Let_def Events_fire_def Block_setParent_def updBlock_def updConn_def)
  with frame_fired_grows[OF f] have "length (fired s) < length (fired s')"
    unfolding 2 by simp
  then show ?thesis by (rule newEvents_nonempty)
qed

lemma final_inside_group:
  assumes "group s = Some g"
  shows "group (finalState (exec chk n c s)) = Some g \<and>
         nextGroup (finalState (exec chk n c s)) = nextGroup s \<and>
         recordedIn (Some g) s (finalState (exec chk n c s))"
  using frame_open_group[OF exec_final_frame assms] .

section \<open>Results of connect and disconnect on the two connections\<close>

lemma connect'_links:
  assumes "connect' chk n s p c = Inr s'"
  shows "targetConnection (conns s' p) = Some c" "targetConnection (conns s' c) = Some p"
  using assms by (elim connect'_steps; simp)+

lemma connect_links:
  assumes r: "connect chk n s a b = Inr s'"
    and nl: "targetConnection (conns s a) \<noteq> Some b" and acc: "chk s a b"
  shows "targetConnection (conns s' a) = Some b \<and> targetConnection (conns s' b) = Some a"
  using r
proof (cases rule: connect_cases)
  case nop
  then show ?thesis using nl acc by simp
next
  case (link m p c u)
  from connect'_links[OF link(6)] link(5) show ?thesis
    by (cases "isSuperior s a") (simp_all add: link(7))
qed

lemma disconnect_targets:
  assumes r: "disconnect chk n s a = Inr s'" and l: "targetConnection (conns s a) = Some b"
    and al: "a < nextConn s" "b < nextConn s" and ab: "a \<noteq> b"
  shows "targetConnection (conns s' (if isSuperior s a then b else a)) = None"
    and "getShadowDom s (if isSuperior s a then a else b) = None \<or> \<not> recordUndo s \<or>
         \<not> workspace (blocks s (getSourceBlock s (if isSuperior s a then a else b))) \<Longrightarrow>
         targetConnection (conns s' (if isSuperior s a then a else b)) = None"
    and "targetConnection (conns s' (if isSuperior s a then a else b)) = Some y \<Longrightarrow>
         y = nextConn s \<and> targetConnection (conns s' y) = Some (if isSuperior s a then a else b)"
proof -
  let ?pa = "if isSuperior s a then a else b"
  let ?ch = "if isSuperior s a then b else a"
  from disconnect_result[OF r] have d: "disconnected chk s a = Inr s'" .
  from d l obtain t u where rb: "targetConnection (conns s b) = Some a"
    and t: "t = detach (beginGroup s) a b
           (if isSuperior s a then getSourceBlock s b else getSourceBlock s a)"
    and u: "respawned chk t ?pa = Inr u" and e: "s' = endGroup s u"
    by (elim disconnected_cases) auto
  show "targetConnection (conns s' ?ch) = None"
    by (rule disconnected_child_free[OF d l]) (use al ab in auto)
  show "targetConnection (conns s' ?pa) = None"
    if "getShadowDom s ?pa = None \<or> \<not> recordUndo s \<or>
         \<not> workspace (blocks s (getSourceBlock s ?pa))"
    using disconnected_no_respawn[OF l rb that, of chk] d by (auto split: if_splits)
  have n: "nextConn t = nextConn s" by (simp add: t)
  have pa: "?pa < nextConn s" using al by simp
  have tp: "targetConnection (conns t ?pa) = None" by (simp add: t)
  show "y = nextConn s \<and> targetConnection (conns s' y) = Some ?pa"
    if y: "targetConnection (conns s' ?pa) = Some y"
    using u
  proof (cases rule: respawned_cases)
    case same
    with y tp e show ?thesis by simp
  next
    case (loose d)
    with y tp e pa n show ?thesis by (simp add: domToBlock_proj)
  next
    case (linked d P C pb cb)
    have ne: "?pa \<noteq> nextConn t" using pa n by simp
    from linked(6) ne y show ?thesis
      unfolding e linked(7) n by (auto split: if_splits)
  qed
qed

lemma stdChecker_ok: "checkerOK stdChecker"
proof -
  have sym: "compatibleTags x y = compatibleTags y x" for x y
    by (cases x; cases y) (auto simp add: list_ex_iff)
  have op: "(t2 = opposite t1) = (t1 = opposite t2)" for t1 t2
    by (cases t1; cases t2) simp_all
  show ?thesis
    unfolding checkerOK_def stdChecker_def
    using sym op by (intro conjI allI impI iffI; auto)
qed

lemma lt_cases:
  "x < 2 \<longleftrightarrow> x = 0 \<or> x = (1::nat)"
  "x < 3 \<longleftrightarrow> x = 0 \<or> x = 1 \<or> x = (2::nat)"
  "x < 4 \<longleftrightarrow> x = 0 \<or> x = 1 \<or> x = 2 \<or> x = (3::nat)"
  by auto

lemma wf_templateWorkspace: "wfState templateWorkspace"
  unfolding wfState_def wfLinks_def wfConns_def wfBlocks_def wfSlot_def
  by (auto simp add: templateWorkspace_def mkState_def mkBlock_def newConnection_def lt_cases
      split: if_splits)

lemma wf_twoValueBlocks: "wfState twoValueBlocks"
  unfolding wfState_def wfLinks_def wfConns_def wfBlocks_def wfSlot_def
  by (auto simp add: twoValueBlocks_def mkState_def mkBlock_def newConnection_def lt_cases
      split: if_splits)

lemma wf_rowWorkspace: "wfState rowWorkspace"
  unfolding wfState_def wfLinks_def wfConns_def wfBlocks_def wfSlot_def
  by (auto simp add: rowWorkspace_def mkState_def mkBlock_def newConnection_def lt_cases
      split: if_splits)

lemma wfState_reciprocal:
  "wfState s \<Longrightarrow> targetConnection (conns s x) = Some y \<Longrightarrow> targetConnection (conns s y) = Some x"
  unfolding wfState_def wfLinks_def by blast

lemma disconnect_wf:
  assumes "wfState s" "checkerOK chk" "disconnect chk n s a = Inr s'"
  shows "wfState s'"
  using dgoodD(2)[OF dgood_disconnect assms(3) assms(2) assms(1)] .





section \<open>Respawn of the placeholder on disconnect\<close>

lemma disconnect_respawn_steps:
  assumes link: "targetConnection (conns s p) = Some k" "targetConnection (conns s k) = Some p"
    and kinds: "isSuperior s p" "\<not> isSuperior s k"
    and side: "(this = p \<and> other = k) \<or> (this = k \<and> other = p)"
  shows "disconnect chk (Suc m) s this =
         (case respawnShadow' chk m
                 (detach (beginGroup s) this other (getSourceBlock s k)) p of
            Inl e \<Rightarrow> Inl e
          | Inr s3 \<Rightarrow> Inr (endGroup s s3))"
  using side
proof
  assume "this = p \<and> other = k"
  then show ?thesis using link kinds by (simp add: disconnect_Suc disconnect_body_alt)
next
  assume "this = k \<and> other = p"
  then show ?thesis using link kinds by (simp add: disconnect_Suc disconnect_body_alt)
qed

lemma respawnShadow'_materializes:
  assumes sh: "getShadowDom D p = Some d" and ws: "workspace (blocks D (getSourceBlock D p))"
    and ru: "recordUndo D"
  shows "respawnShadow' chk (Suc m) D p =
         (if d = DomPlain then Inl (ChildNoOutputOrPrevious, fst (Xml_domToBlock D d))
          else connect chk m (fst (Xml_domToBlock D d)) p (nextConn D))"
  using assms
  by (cases d) (simp_all add: respawnShadow'_Suc respawnShadow'_body_def newShadowBlock_def)

lemma linkPair_fresh:
  assumes p: "p < nextConn D" "getSourceBlock D p < nextBlock D"
    and sup: "isSuperior D p" and free: "targetConnection (conns D p) = None"
    and ws: "workspace (blocks D (getSourceBlock D p))" and d: "d \<noteq> DomPlain"
    and t: "t = fst (Xml_domToBlock D d)"
  shows "linkPair chk t p (nextConn D) =
         Inr (if chk t p (nextConn D)
              then endGroup t (attach (beginGroup t) p (nextConn D) (getSourceBlock D p) (nextBlock D))
              else t)"
proof -
  have cp: "conns t p = conns D p" using p(1) by (simp add: t domToBlock_proj)
  have bp: "blocks t (getSourceBlock D p) = blocks D (getSourceBlock D p)"
    using p(2) by (simp add: t domToBlock_proj)
  have sb: "getSourceBlock t p = getSourceBlock D p" by (simp add: getSourceBlock_def cp)
  have nb: "getSourceBlock t (nextConn D) = nextBlock D"
    using d by (cases d) (simp_all add: t getSourceBlock_def newConnection_def)
  have "targetConnection (conns t p) \<noteq> Some (nextConn D)" using free cp by simp
  moreover have "hasConnectionChecker t p" using ws by (simp add: hasConnectionChecker_def sb bp)
  moreover have "isSuperior t p" using sup by (simp add: isSuperior_def cp)
  ultimately show ?thesis by (simp add: linkPair_def sb nb)
qed

lemma disconnect_respawn:
  assumes link: "targetConnection (conns s p) = Some k" "targetConnection (conns s k) = Some p"
    and kinds: "isSuperior s p" "\<not> isSuperior s k"
    and side: "(this = p \<and> other = k) \<or> (this = k \<and> other = p)"
    and alloc: "p < nextConn s" "k < nextConn s" "getSourceBlock s p < nextBlock s"
    and respawn: "getShadowDom s p = Some d" "workspace (blocks s (getSourceBlock s p))"
      "recordUndo s"
    and t: "t = fst (Xml_domToBlock (detach (beginGroup s) this other (getSourceBlock s k)) d)"
  shows "d = DomPlain \<Longrightarrow>
           disconnect chk (Suc (Suc (Suc (Suc n)))) s this = Inl (ChildNoOutputOrPrevious, t)"
    and "d \<noteq> DomPlain \<Longrightarrow>
           disconnect chk (Suc (Suc (Suc (Suc n)))) s this =
             (case connect chk (Suc (Suc n)) t p (nextConn s) of
                Inl e \<Rightarrow> Inl e
              | Inr u \<Rightarrow> Inr (endGroup s u))"
    and "d \<noteq> DomPlain \<Longrightarrow>
           disconnect chk (Suc (Suc (Suc (Suc n)))) s this =
             Inr (endGroup s
                   (if chk t p (nextConn s)
                    then endGroup t (attach (beginGroup t) p (nextConn s) (getSourceBlock s p)
                                       (nextBlock s))
                    else t))"
proof -
  let ?D = "detach (beginGroup s) this other (getSourceBlock s k)"
  have D: "getShadowDom ?D p = Some d" "workspace (blocks ?D (getSourceBlock ?D p))"
    "recordUndo ?D" "nextConn ?D = nextConn s" "nextBlock ?D = nextBlock s"
    "getSourceBlock ?D p = getSourceBlock s p" "isSuperior ?D p"
    "p < nextConn ?D" "getSourceBlock ?D p < nextBlock ?D"
    using respawn alloc kinds by (simp_all add: getShadowDom_def getSourceBlock_def isSuperior_def)
  have free: "targetConnection (conns ?D p) = None" using side by auto
  have 1: "disconnect chk (Suc (Suc (Suc (Suc n)))) s this =
         (case respawnShadow' chk (Suc (Suc (Suc n))) ?D p of
            Inl e \<Rightarrow> Inl e
          | Inr s3 \<Rightarrow> Inr (endGroup s s3))"
    by (rule disconnect_respawn_steps[OF link kinds side])
  have 2: "respawnShadow' chk (Suc (Suc (Suc n))) ?D p =
         (if d = DomPlain then Inl (ChildNoOutputOrPrevious, t)
          else connect chk (Suc (Suc n)) t p (nextConn s))"
    using respawnShadow'_materializes[OF D(1,2,3), of chk "Suc (Suc n)"] by (simp add: t D(4))
  show "disconnect chk (Suc (Suc (Suc (Suc n)))) s this = Inl (ChildNoOutputOrPrevious, t)"
    if "d = DomPlain"
    using that by (simp add: 1 2)
  show 3: "disconnect chk (Suc (Suc (Suc (Suc n)))) s this =
             (case connect chk (Suc (Suc n)) t p (nextConn s) of
                Inl e \<Rightarrow> Inl e
              | Inr u \<Rightarrow> Inr (endGroup s u))"
    if "d \<noteq> DomPlain"
    using that by (simp add: 1 2)
  show "disconnect chk (Suc (Suc (Suc (Suc n)))) s this =
             Inr (endGroup s
                   (if chk t p (nextConn s)
                    then endGroup t (attach (beginGroup t) p (nextConn s) (getSourceBlock s p)
                                       (nextBlock s))
                    else t))"
    if nd: "d \<noteq> DomPlain"
  proof -
    have u: "\<not> isConnected t p" "\<not> isConnected t (nextConn s)"
      using domToBlock_unlinked[of ?D p d] free nd by (simp_all add: isConnected_def t D(4))
    have "connect chk (Suc (Suc n)) t p (nextConn s) = linkPair chk t p (nextConn s)"
      by (rule connect_unlinked[OF u])
    also have "\<dots> = Inr (if chk t p (nextConn s)
              then endGroup t (attach (beginGroup t) p (nextConn s) (getSourceBlock s p) (nextBlock s))
              else t)"
      using linkPair_fresh[OF D(8) D(9) D(7) free D(2) nd t, of chk] by (simp add: D)
    finally show ?thesis by (simp add: 3[OF nd])
  qed
qed

lemma respawn_fields:
  assumes alloc: "p < nextConn s" "k < nextConn s" "getSourceBlock s p < nextBlock s"
    and pk: "p \<noteq> k" and side: "(this = p \<and> other = k) \<or> (this = k \<and> other = p)"
    and nd: "d \<noteq> DomPlain"
    and t: "t = fst (Xml_domToBlock (detach (beginGroup s) this other cb) d)"
    and s': "s' = endGroup s
                   (if acc
                    then endGroup t (attach (beginGroup t) p (nextConn s) (getSourceBlock s p)
                                       (nextBlock s))
                    else t)"
  shows "nextBlock s' = Suc (nextBlock s)" "isShadow (blocks s' (nextBlock s))"
    "workspace (blocks s' (nextBlock s))" "getSourceBlock s' (nextConn s) = nextBlock s"
    "targetConnection (conns s' k) = None"
    "acc \<Longrightarrow> targetConnection (conns s' p) = Some (nextConn s) \<and>
        targetConnection (conns s' (nextConn s)) = Some p \<and>
        parentBlock' (blocks s' (nextBlock s)) = Some (getSourceBlock s p)"
    "\<not> acc \<Longrightarrow> targetConnection (conns s' p) = None \<and>
        targetConnection (conns s' (nextConn s)) = None \<and>
        parentBlock' (blocks s' (nextBlock s)) = None"
proof -
  let ?D = "detach (beginGroup s) this other cb"
  have n: "nextConn ?D = nextConn s" "nextBlock ?D = nextBlock s" by simp_all
  have nb: "blocks t (nextBlock s) =
     newShadowBlock (case d of DomOutput t \<Rightarrow> Some (nextConn s) | _ \<Rightarrow> None)
                    (case d of DomPrevious t \<Rightarrow> Some (nextConn s) | _ \<Rightarrow> None)"
    using domToBlock_new(1)[of ?D d] by (cases d) (simp_all add: t)
  have nc: "sourceBlock' (conns t (nextConn s)) = nextBlock s"
    "targetConnection (conns t (nextConn s)) = None"
    using nd domToBlock_new(2,3)[of d _ ?D] by (cases d; simp add: t newConnection_def)+
  have old: "conns t p = conns ?D p" "conns t k = conns ?D k"
    using alloc domToBlock_proj(4)[of _ ?D d] by (simp_all add: t)
  have tp: "targetConnection (conns t p) = None" "targetConnection (conns t k) = None"
    using side by (auto simp add: old)
  have ne: "k \<noteq> nextConn s" "p \<noteq> nextConn s" using alloc by simp_all
  show "nextBlock s' = Suc (nextBlock s)"
    by (simp add: s' t domToBlock_proj)
  show "isShadow (blocks s' (nextBlock s))" "workspace (blocks s' (nextBlock s))"
    using alloc(3) by (simp_all add: s' nb newShadowBlock_def)
  show "getSourceBlock s' (nextConn s) = nextBlock s"
    by (simp add: s' getSourceBlock_def nc)
  show "targetConnection (conns s' k) = None"
    using ne pk tp by (simp add: s')
  show "targetConnection (conns s' p) = Some (nextConn s) \<and>
        targetConnection (conns s' (nextConn s)) = Some p \<and>
        parentBlock' (blocks s' (nextBlock s)) = Some (getSourceBlock s p)" if acc
    using that ne by (simp add: s')
  show "targetConnection (conns s' p) = None \<and>
        targetConnection (conns s' (nextConn s)) = None \<and>
        parentBlock' (blocks s' (nextBlock s)) = None" if "\<not> acc"
    using that tp nc by (simp add: s' nb newShadowBlock_def)
qed

section \<open>The disposed flag\<close>



section \<open>Changing the compatibility of a connection\<close>

lemma wfState_setCheck:
  "wfState (updConn s c (\<lambda>k. k\<lparr>check' := x\<rparr>)) = wfState s"
proof -
  have "sameStructure s (updConn s c (\<lambda>k. k\<lparr>check' := x\<rparr>))"
    "sameLinks s (updConn s c (\<lambda>k. k\<lparr>check' := x\<rparr>))"
    by (simp_all add: sameStructure_def sameLinks_def updConn_def)
  then show ?thesis by (rule wfState_cong)
qed

lemma updCheck_proj [simp]:
  "targetConnection (conns (updConn s c (\<lambda>k. k\<lparr>check' := x\<rparr>)) y) = targetConnection (conns s y)"
  "type (conns (updConn s c (\<lambda>k. k\<lparr>check' := x\<rparr>)) y) = type (conns s y)"
  "sourceBlock' (conns (updConn s c (\<lambda>k. k\<lparr>check' := x\<rparr>)) y) = sourceBlock' (conns s y)"
  "shadowDom' (conns (updConn s c (\<lambda>k. k\<lparr>check' := x\<rparr>)) y) = shadowDom' (conns s y)"
  "check' (conns (updConn s c (\<lambda>k. k\<lparr>check' := x\<rparr>)) c) = x"
  "blocks (updConn s c (\<lambda>k. k\<lparr>check' := x\<rparr>)) = blocks s"
  "nextConn (updConn s c (\<lambda>k. k\<lparr>check' := x\<rparr>)) = nextConn s"
  "nextBlock (updConn s c (\<lambda>k. k\<lparr>check' := x\<rparr>)) = nextBlock s"
  "recordUndo (updConn s c (\<lambda>k. k\<lparr>check' := x\<rparr>)) = recordUndo s"
  by (simp_all add: updConn_def)

lemma superior_opposite:
  "type (conns s b) = opposite (type (conns s a)) \<Longrightarrow> isSuperior s b = (\<not> isSuperior s a)"
  by (cases "type (conns s a)") (simp_all add: isSuperior_def)

lemma unplug_eq_disconnect:
  assumes wf: "wfState s" and l: "targetConnection (conns s p) = Some t" and sup: "isSuperior s p"
  shows "Block_unplug chk (Suc m) s (getSourceBlock s t) = disconnect chk m s t"
proof -
  have wl: "wfLinks s" and wc: "wfConns s" using wf by (simp_all add: wfState_def)
  note a = wfLinksD[OF wl l]
  note i = isSuperior_inferior[OF sup a(4)]
  have con: "isConnected s t" using a(3) by (simp add: isConnected_def)
  show ?thesis
  proof (cases "type (conns s t) = OUTPUT_VALUE")
    case True
    from wfConnsD(2)[OF wc a(2) True]
    show ?thesis using con
      by (simp add: Block_unplug_Suc Block_unplug_body_def getSourceBlock_def)
  next
    case False
    with i(1) have "type (conns s t) = PREVIOUS_STATEMENT" by simp
    from wfConnsD(3)[OF wc a(2) this]
    show ?thesis using con
      by (simp add: Block_unplug_Suc Block_unplug_body_def getSourceBlock_def)
  qed
qed

lemma respawned_parent:
  assumes r: "respawned chk t p = Inr u" and b: "b < nextBlock t"
    and sup: "isSuperior t p" and p: "p < nextConn t"
  shows "parentBlock' (blocks u b) = parentBlock' (blocks t b)"
  using r
proof (cases rule: respawned_cases)
  case same
  then show ?thesis by simp
next
  case (loose d)
  then show ?thesis using b by (simp add: domToBlock_proj)
next
  case (linked d P C pb cb)
  let ?t1 = "fst (Xml_domToBlock t d)"
  have lp: "linkPair chk ?t1 p (nextConn t) = Inr u"
    using r linked(1,2,3,4) by (cases d) (simp_all add: respawned_def)
  have nb: "getSourceBlock ?t1 (nextConn t) = nextBlock t"
    using linked(2) by (cases d) (simp_all add: getSourceBlock_def newConnection_def)
  have "conns ?t1 p = conns t p" using p by (simp add: domToBlock_proj)
  then have s1: "isSuperior ?t1 p" using sup by (simp add: isSuperior_def)
  from lp s1 have "u = ?t1 \<or>
       u = endGroup ?t1 (attach (beginGroup ?t1) p (nextConn t) (getSourceBlock ?t1 p)
                           (getSourceBlock ?t1 (nextConn t)))"
    by (auto simp add: linkPair_def split: if_splits)
  then show ?thesis
  proof
    assume "u = ?t1"
    then show ?thesis using b by (simp add: domToBlock_proj)
  next
    assume "u = endGroup ?t1 (attach (beginGroup ?t1) p (nextConn t) (getSourceBlock ?t1 p)
                           (getSourceBlock ?t1 (nextConn t)))"
    then show ?thesis using b nb by (simp add: domToBlock_proj)
  qed
qed

lemma disconnected_child_parent:
  assumes d: "disconnected chk s c = Inr s'" and q: "targetConnection (conns s c) = Some q"
    and cb: "cb = (if isSuperior s c then getSourceBlock s q else getSourceBlock s c)"
    and al: "cb < nextBlock s"
    and sup: "isSuperior s (if isSuperior s c then c else q)"
    and pa: "(if isSuperior s c then c else q) < nextConn s"
  shows "parentBlock' (blocks s' cb) = None"
proof -
  from d q obtain t u where
    t: "t = detach (beginGroup s) c q
           (if isSuperior s c then getSourceBlock s q else getSourceBlock s c)"
    and u: "respawned chk t (if isSuperior s c then c else q) = Inr u" and e: "s' = endGroup s u"
    by (elim disconnected_cases) auto
  have 1: "cb < nextBlock t" using al by (simp add: t)
  have 2: "isSuperior t (if isSuperior s c then c else q)"
    using sup by (simp add: t isSuperior_def)
  have 3: "(if isSuperior s c then c else q) < nextConn t" using pa by (simp add: t)
  from respawned_parent[OF u 1 2 3] show ?thesis by (simp add: e t cb)
qed

lemma disconnected_returns:
  assumes q: "targetConnection (conns s c) = Some q" and r: "targetConnection (conns s q) = Some c"
    and pa: "pa = (if isSuperior s c then c else q)"
    and nd: "getShadowDom s pa \<noteq> Some DomPlain"
    and al: "pa < nextConn s" "getSourceBlock s pa < nextBlock s"
  shows "\<exists>s'. disconnected chk s c = Inr s'"
proof -
  let ?t = "detach (beginGroup s) c q
                (if isSuperior s c then getSourceBlock s q else getSourceBlock s c)"
  have sh: "getShadowDom ?t pa = getShadowDom s pa" by (simp add: getShadowDom_def)
  have "\<exists>u. respawned chk ?t pa = Inr u"
  proof (cases "workspace (blocks ?t (getSourceBlock ?t pa)) \<and> recordUndo ?t")
    case False
    then show ?thesis by (auto simp add: respawned_def)
  next
    case True
    show ?thesis
    proof (cases "getShadowDom s pa")
      case None
      then show ?thesis using sh by (simp add: respawned_def)
    next
      case (Some d)
      with nd have d: "d \<noteq> DomPlain" by simp
      let ?t1 = "fst (Xml_domToBlock ?t d)"
      have cp: "conns ?t1 pa = conns ?t pa" using al(1) by (simp add: domToBlock_proj)
      have bp: "blocks ?t1 (getSourceBlock ?t pa) = blocks ?t (getSourceBlock ?t pa)"
        using al(2) by (simp add: domToBlock_proj getSourceBlock_def)
      have "hasConnectionChecker ?t1 pa"
        using True bp by (simp add: hasConnectionChecker_def getSourceBlock_def cp)
      then have "\<exists>u. linkPair chk ?t1 pa (nextConn ?t) = Inr u"
        by (simp add: linkPair_def)
      then show ?thesis using Some sh d True by (cases d) (simp_all add: respawned_def)
    qed
  qed
  then show ?thesis using q r pa by (auto simp add: disconnected_def)
qed

lemma setCheck_unplugs:
  assumes wf: "wfState s" and tr: "truthy check"
    and l: "targetConnection (conns s this) = Some T" and hc: "hasConnectionChecker s this"
    and s0: "s0 = updConn s this (\<lambda>k. k\<lparr>check' := Some (toArray check)\<rparr>)"
    and ref: "\<not> chk s0 this T"
    and ic: "ic = (if isSuperior s this then T else this)"
    and pc: "pc = (if isSuperior s this then this else T)"
  shows "setCheck chk (Suc n) s this check = disconnect chk n s0 ic"
    and "setCheck chk (Suc n) s this check = Inr s' \<Longrightarrow>
           check' (conns s' this) = Some (toArray check) \<and>
           targetConnection (conns s' ic) = None \<and>
           parentBlock' (blocks s' (getSourceBlock s ic)) = None"
    and "getShadowDom s pc \<noteq> Some DomPlain \<Longrightarrow>
           \<exists>s'. setCheck chk (Suc (Suc (Suc (Suc (Suc n))))) s this check = Inr s'"
proof -
  have wf0: "wfState s0" using wf by (simp add: s0 wfState_setCheck)
  have wl: "wfLinks s0" and wc: "wfConns s0" using wf0 by (simp_all add: wfState_def)
  have l0: "targetConnection (conns s0 this) = Some T" using l by (simp add: s0)
  note a = wfLinksD[OF wl l0]
  have sup0: "isSuperior s0 x = isSuperior s x" for x by (simp add: isSuperior_def s0)
  have sb0: "getSourceBlock s0 x = getSourceBlock s x" for x by (simp add: getSourceBlock_def s0)
  have hc0: "hasConnectionChecker s0 this"
    using hc by (simp add: hasConnectionChecker_def sb0) (simp add: s0)
  have kinds: "isSuperior s0 pc" "\<not> isSuperior s0 ic"
    and pl: "targetConnection (conns s0 pc) = Some ic" "targetConnection (conns s0 ic) = Some pc"
    and alloc: "pc < nextConn s0" "ic < nextConn s0" and ne: "ic \<noteq> pc"
  proof -
    have "type (conns s T) = opposite (type (conns s this))" using a(4) by (simp add: s0)
    then have o: "isSuperior s T = (\<not> isSuperior s this)" by (rule superior_opposite)
    show "isSuperior s0 pc" "\<not> isSuperior s0 ic"
      unfolding sup0 pc ic using o by (cases "isSuperior s this"; simp)+
    show "targetConnection (conns s0 pc) = Some ic" "targetConnection (conns s0 ic) = Some pc"
      using l0 a(3) by (auto simp add: pc ic)
    show "pc < nextConn s0" "ic < nextConn s0" using a(1,2) by (auto simp add: pc ic)
    show "ic \<noteq> pc" using a(5) by (auto simp add: pc ic)
  qed
  have child: "(if isSuperior s0 this then targetBlock s0 this else Some (getSourceBlock s0 this)) =
      Some (getSourceBlock s0 ic)"
    using l0 by (simp add: targetBlock_def ic sup0)
  have un: "Block_unplug chk (Suc m) s0 (getSourceBlock s0 ic) = disconnect chk m s0 ic" for m
    by (rule unplug_eq_disconnect[OF wf0 pl(1) kinds(1)])
  have eqm: "setCheck chk (Suc m) s this check = disconnect chk m s0 ic" for m
    using tr l0 hc0 ref child un[of m]
    by (simp add: setCheck_def onCheckChanged'_def s0[symmetric])
  show eq: "setCheck chk (Suc n) s this check = disconnect chk n s0 ic"
    by (rule eqm)
  show "check' (conns s' this) = Some (toArray check) \<and>
           targetConnection (conns s' ic) = None \<and>
           parentBlock' (blocks s' (getSourceBlock s ic)) = None"
    if r: "setCheck chk (Suc n) s this check = Inr s'"
  proof -
    from r eq have d: "disconnect chk n s0 ic = Inr s'" by simp
    then have dd: "disconnected chk s0 ic = Inr s'" by (rule disconnect_result)
    from d have "frame s0 s'" unfolding disconnect_def by (rule exec_frame)
    then have 1: "check' (conns s' this) = Some (toArray check)"
      using a(1) by (simp add: frame_def) (simp add: s0)
    have 2: "targetConnection (conns s' ic) = None"
      by (rule disconnected_child_free[OF dd pl(2)]) (use kinds ne alloc in auto)
    have "sourceBlock' (conns s0 ic) < nextBlock s0" by (rule wfConnsD(1)[OF wc alloc(2)])
    then have "getSourceBlock s0 ic < nextBlock s0" by (simp add: getSourceBlock_def)
    then have 3: "parentBlock' (blocks s' (getSourceBlock s0 ic)) = None"
      by (intro disconnected_child_parent[OF dd pl(2)]) (use kinds alloc in auto)
    from 1 2 3 show ?thesis by (simp add: sb0)
  qed
  show "\<exists>s'. setCheck chk (Suc (Suc (Suc (Suc (Suc n))))) s this check = Inr s'"
    if nd: "getShadowDom s pc \<noteq> Some DomPlain"
  proof -
    have "sourceBlock' (conns s0 pc) < nextBlock s0" by (rule wfConnsD(1)[OF wc alloc(1)])
    then have b: "getSourceBlock s0 pc < nextBlock s0" by (simp add: getSourceBlock_def)
    have nd0: "getShadowDom s0 pc \<noteq> Some DomPlain"
      using nd by (simp add: getShadowDom_def s0)
    have "\<exists>s'. disconnected chk s0 ic = Inr s'"
      by (rule disconnected_returns[OF pl(2) pl(1) _ nd0 alloc(1) b]) (use kinds in simp)
    then show ?thesis
      using eqm[of "Suc (Suc (Suc (Suc n)))"] by (simp add: disconnect_closed)
  qed
qed

lemma setCheck_compatible:
  assumes tr: "truthy check"
    and s0: "s0 = updConn s this (\<lambda>k. k\<lparr>check' := Some (toArray check)\<rparr>)"
  shows "targetConnection (conns s this) = None \<Longrightarrow> setCheck chk n s this check = Inr s0"
    and "targetConnection (conns s this) = Some T \<Longrightarrow> \<not> hasConnectionChecker s this \<Longrightarrow>
           setCheck chk n s this check = Inl (TypeError, s0)"
    and "targetConnection (conns s this) = Some T \<Longrightarrow> hasConnectionChecker s this \<Longrightarrow>
           chk s0 this T \<Longrightarrow> setCheck chk n s this check = Inr s0"
proof -
  have hc: "hasConnectionChecker s0 this = hasConnectionChecker s this"
    by (simp add: hasConnectionChecker_def getSourceBlock_def s0)
  show "setCheck chk n s this check = Inr s0" if "targetConnection (conns s this) = None"
    using that tr by (simp add: setCheck_def onCheckChanged'_def s0[symmetric]) (simp add: s0)
  show "setCheck chk n s this check = Inl (TypeError, s0)"
    if "targetConnection (conns s this) = Some T" "\<not> hasConnectionChecker s this"
  proof -
    have "targetConnection (conns s0 this) = Some T" using that(1) by (simp add: s0)
    then show ?thesis
      using that(2) tr hc by (simp add: setCheck_def onCheckChanged'_def s0[symmetric])
  qed
  show "setCheck chk n s this check = Inr s0"
    if "targetConnection (conns s this) = Some T" "hasConnectionChecker s this" "chk s0 this T"
  proof -
    have "targetConnection (conns s0 this) = Some T" using that(1) by (simp add: s0)
    then show ?thesis
      using that(2,3) tr hc by (simp add: setCheck_def onCheckChanged'_def s0[symmetric])
  qed
qed

lemma wf_taggedWorkspace: "wfState taggedWorkspace"
  unfolding wfState_def wfLinks_def wfConns_def wfBlocks_def wfSlot_def
  by (auto simp add: taggedWorkspace_def mkState_def mkBlock_def newConnection_def lt_cases
      split: if_splits)

section \<open>A displaced placeholder dissolves\<close>












lemma blockToDom_beginGroup [simp]: "Xml_blockToDom (beginGroup s) X = Xml_blockToDom s X"
  by (simp add: Xml_blockToDom_def split: option.splits)

lemma getConnections_beginGroup [simp]: "getConnections (beginGroup s) X = getConnections s X"
  by (simp add: getConnections_def)

section \<open>Superiority symmetry\<close>

text \<open>
  C2.  For a superior connection \<open>a\<close> and an inferior connection \<open>b\<close> that the checker
  accepts in both orders, on blocks of a live workspace and not half-linked to each other,
  \<open>connect(a, b)\<close> and \<open>connect(b, a)\<close> give the same result: superiority is read from
  the kind by \<open>isSuperior\<close>, and both calls run the attach sequence \<open>connect_\<close> on the
  superior connection \<open>a\<close> with \<open>b\<close> as the child.
\<close>

theorem connect_superiority_symmetry:
  assumes "isSuperior s a" and "\<not> isSuperior s b"
    and "chk s a b" and "chk s b a"
    and "hasConnectionChecker s a" and "hasConnectionChecker s b"
    and "targetConnection (conns s a) = Some b \<longleftrightarrow> targetConnection (conns s b) = Some a"
  shows "connect chk n s b a = connect chk n s a b \<and>
         connect chk (Suc n) s a b =
           (if targetConnection (conns s a) = Some b then Inr s
            else case connect' chk n (beginGroup s) a b of
                   Inl e \<Rightarrow> Inl e
                 | Inr t \<Rightarrow> Inr (endGroup s t))"
proof -
  have sup: "isSuperior (Events_setGroup True s) a" "\<not> isSuperior (Events_setGroup True s) b"
    using assms(1,2) by (simp_all add: isSuperior_def Events_setGroup_def)
  have step: "connect chk (Suc m) s b a = connect chk (Suc m) s a b" for m
    using assms sup by (simp add: connect_Suc connect_body_def Let_def)
  have "connect chk n s b a = connect chk n s a b"
    by (cases n) (simp_all add: zero_fuel step)
  moreover have "connect chk (Suc n) s a b =
           (if targetConnection (conns s a) = Some b then Inr s
            else case connect' chk n (beginGroup s) a b of
                   Inl e \<Rightarrow> Inl e
                 | Inr t \<Rightarrow> Inr (endGroup s t))"
    using assms sup
    by (simp add: connect_Suc connect_body_def Let_def beginGroup_def endGroup_def
        split: sum.splits)
  ultimately show ?thesis by simp
qed

theorem connect_superiority_symmetry_witness:
  "isSuperior twoValueBlocks 1 \<and> \<not> isSuperior twoValueBlocks 2 \<and>
   stdChecker twoValueBlocks 1 2 \<and> stdChecker twoValueBlocks 2 1 \<and>
   connect stdChecker 2 twoValueBlocks 2 1 = connect stdChecker 2 twoValueBlocks 1 2 \<and>
   \<not> isl (connect stdChecker 2 twoValueBlocks 1 2) \<and>
   targetConnection (conns (projr (connect stdChecker 2 twoValueBlocks 2 1)) 1) = Some 2"
proof -
  have h1: "isSuperior twoValueBlocks 1" by code_simp
  have h2: "\<not> isSuperior twoValueBlocks 2" by code_simp
  have h3: "stdChecker twoValueBlocks 1 2" by code_simp
  have h4: "stdChecker twoValueBlocks 2 1" by code_simp
  have h5: "hasConnectionChecker twoValueBlocks 1" by code_simp
  have h6: "hasConnectionChecker twoValueBlocks 2" by code_simp
  have h7: "targetConnection (conns twoValueBlocks 1) = Some 2 \<longleftrightarrow>
            targetConnection (conns twoValueBlocks 2) = Some 1" by code_simp
  have r: "\<not> isl (connect stdChecker 2 twoValueBlocks 1 2)" by code_simp
  have t: "targetConnection (conns (projr (connect stdChecker 2 twoValueBlocks 1 2)) 1) = Some 2"
    by code_simp
  from connect_superiority_symmetry [of twoValueBlocks 1 2 stdChecker 2, OF h1 h2 h3 h4 h5 h6 h7]
  show ?thesis using h1 h2 h3 h4 r t by simp
qed

section \<open>Event-group nesting\<close>

text \<open>
  C8.  The state a \<open>connect\<close> or \<open>disconnect\<close> call leaves behind, whether it returns or
  throws, is described in three parts.  (1) If an event group \<open>g\<close> is open at entry, it is
  still the current group at the end, no group identifier was drawn, and every event fired
  during the call, by the call itself or by any nested call of the cascade, was created in
  \<open>g\<close>.  (2) If no group is open at entry: a \<open>connect\<close> that returns leaves no group open;
  it changed nothing when the two connections were already linked or the checker refused,
  and otherwise it drew exactly one group identifier and every event fired during the call
  was created in that group; a \<open>disconnect\<close> that returns leaves no group open, drew
  exactly one group identifier, and every event fired during the call was created in that
  group.  A call that throws before the group is opened (no fuel, no connection checker,
  or a failed entry check of \<open>disconnect\<close>) changed nothing; a call that throws later
  leaves the group it opened open: the group is closed only on return.  (3) With events
  enabled, a \<open>connect\<close> that performs the link and a \<open>disconnect\<close> that returns fire at
  least one event.
\<close>

theorem event_group_nesting:
  "(group s = Some g \<longrightarrow>
      group (finalState (connect chk n s a b)) = Some g \<and>
      nextGroup (finalState (connect chk n s a b)) = nextGroup s \<and>
      recordedIn (Some g) s (finalState (connect chk n s a b)) \<and>
      group (finalState (disconnect chk n s a)) = Some g \<and>
      nextGroup (finalState (disconnect chk n s a)) = nextGroup s \<and>
      recordedIn (Some g) s (finalState (disconnect chk n s a))) \<and>
   (group s = None \<longrightarrow>
      (case connect chk n s a b of
         Inr s' \<Rightarrow>
           group s' = None \<and>
           (if targetConnection (conns s a) = Some b \<or> \<not> chk s a b then s' = s
            else ownGroup s s')
       | Inl (e, s') \<Rightarrow>
           if n = 0 \<or> \<not> hasConnectionChecker s a then s' = s
           else group s' = Some (nextGroup s) \<and> ownGroup s s') \<and>
      (case disconnect chk n s a of
         Inr s' \<Rightarrow> group s' = None \<and> ownGroup s s'
       | Inl (e, s') \<Rightarrow>
           if n = 0 \<or> \<not> linkedBack s a then s' = s
           else group s' = Some (nextGroup s) \<and> ownGroup s s')) \<and>
   (enabled s \<longrightarrow>
      (\<forall>s'. connect chk n s a b = Inr s' \<longrightarrow> targetConnection (conns s a) \<noteq> Some b \<longrightarrow>
            chk s a b \<longrightarrow> newEvents s s' \<noteq> []) \<and>
      (\<forall>s'. disconnect chk n s a = Inr s' \<longrightarrow> newEvents s s' \<noteq> []))"
proof (intro conjI impI allI)
  assume g: "group s = Some g"
  note c = final_inside_group[OF g, of chk n "Connect a b", folded connect_def]
  note d = final_inside_group[OF g, of chk n "Disconnect a", folded disconnect_def]
  show "group (finalState (connect chk n s a b)) = Some g"
    "nextGroup (finalState (connect chk n s a b)) = nextGroup s"
    "recordedIn (Some g) s (finalState (connect chk n s a b))"
    using c by simp_all
  show "group (finalState (disconnect chk n s a)) = Some g"
    "nextGroup (finalState (disconnect chk n s a)) = nextGroup s"
    "recordedIn (Some g) s (finalState (disconnect chk n s a))"
    using d by simp_all
next
  assume None: "group s = None"
  show "case connect chk n s a b of
         Inr s' \<Rightarrow>
           group s' = None \<and>
           (if targetConnection (conns s a) = Some b \<or> \<not> chk s a b then s' = s
            else ownGroup s s')
       | Inl (e, s') \<Rightarrow>
           if n = 0 \<or> \<not> hasConnectionChecker s a then s' = s
           else group s' = Some (nextGroup s) \<and> ownGroup s s'"
  proof (cases "connect chk n s a b")
    case (Inl x)
    obtain e s' where x: "x = (e, s')" by (cases x)
    from connect_throws_group[OF Inl[unfolded x] None] show ?thesis
      unfolding Inl x by simp
  next
    case (Inr s')
    from connect_returns_group[OF Inr None] show ?thesis
      unfolding Inr by simp
  qed
  show "case disconnect chk n s a of
         Inr s' \<Rightarrow> group s' = None \<and> ownGroup s s'
       | Inl (e, s') \<Rightarrow>
           if n = 0 \<or> \<not> linkedBack s a then s' = s
           else group s' = Some (nextGroup s) \<and> ownGroup s s'"
  proof (cases "disconnect chk n s a")
    case (Inl x)
    obtain e s' where x: "x = (e, s')" by (cases x)
    from disconnect_throws_group[OF Inl[unfolded x] None] show ?thesis
      unfolding Inl x by simp
  next
    case (Inr s')
    from disconnect_returns_group[OF Inr None] show ?thesis
      unfolding Inr by simp
  qed
next
  fix s'
  assume "enabled s" "connect chk n s a b = Inr s'" "targetConnection (conns s a) \<noteq> Some b"
    "chk s a b"
  then show "newEvents s s' \<noteq> []" using connect_fires by blast
next
  fix s'
  assume "enabled s" "disconnect chk n s a = Inr s'"
  then show "newEvents s s' \<noteq> []" using disconnect_fires by blast
qed

theorem event_group_nesting_witness:
  "group rowWorkspace = None \<and> enabled rowWorkspace \<and>
   group (projr (connect stdChecker 6 rowWorkspace 0 2)) = None \<and>
   ownGroup rowWorkspace (projr (connect stdChecker 6 rowWorkspace 0 2)) \<and>
   newEvents rowWorkspace (projr (connect stdChecker 6 rowWorkspace 0 2)) \<noteq> [] \<and>
   group (projr (disconnect stdChecker 6 rowWorkspace 0)) = None \<and>
   ownGroup rowWorkspace (projr (disconnect stdChecker 6 rowWorkspace 0)) \<and>
   newEvents rowWorkspace (projr (disconnect stdChecker 6 rowWorkspace 0)) \<noteq> [] \<and>
   group (beginGroup rowWorkspace) = Some 0 \<and>
   group (finalState (connect stdChecker 6 (beginGroup rowWorkspace) 0 2)) = Some 0 \<and>
   recordedIn (Some 0) (beginGroup rowWorkspace)
     (finalState (connect stdChecker 6 (beginGroup rowWorkspace) 0 2)) \<and>
   group plainTemplateWorkspace = None \<and>
   group (snd (projl (disconnect stdChecker 4 plainTemplateWorkspace 0))) = Some 0 \<and>
   ownGroup plainTemplateWorkspace (snd (projl (disconnect stdChecker 4 plainTemplateWorkspace 0)))"
proof -
  define c where "c = connect stdChecker 6 rowWorkspace 0 2"
  define d where "d = disconnect stdChecker 6 rowWorkspace 0"
  define x where "x = disconnect stdChecker 4 plainTemplateWorkspace 0"
  have "\<not> isl c" unfolding c_def by code_simp
  then obtain s' where c: "c = Inr s'" by (cases c) simp_all
  have "\<not> isl d" unfolding d_def by code_simp
  then obtain t where d: "d = Inr t" by (cases d) simp_all
  have "isl x" unfolding x_def by code_simp
  then obtain e u where x: "x = Inl (e, u)" by (cases x) auto
  have g: "group rowWorkspace = None" "enabled rowWorkspace"
    "targetConnection (conns rowWorkspace 0) \<noteq> Some 2" "stdChecker rowWorkspace 0 2"
    by code_simp+
  have b: "group (beginGroup rowWorkspace) = Some 0" by code_simp
  have p: "group plainTemplateWorkspace = None" "linkedBack plainTemplateWorkspace 0"
    "nextGroup plainTemplateWorkspace = 0"
    by code_simp+
  note A = event_group_nesting[where s = rowWorkspace and chk = stdChecker and n = 6
      and a = 0 and b = 2, folded c_def d_def, unfolded c d]
  note B = event_group_nesting[where s = "beginGroup rowWorkspace" and chk = stdChecker
      and n = 6 and a = 0 and b = 2 and g = 0]
  note C = event_group_nesting[where s = plainTemplateWorkspace and chk = stdChecker
      and n = 4 and a = 0, folded x_def, unfolded x]
  from A g have 1: "group s' = None \<and> ownGroup rowWorkspace s' \<and> newEvents rowWorkspace s' \<noteq> [] \<and>
      group t = None \<and> ownGroup rowWorkspace t \<and> newEvents rowWorkspace t \<noteq> []"
    by simp
  from B b have 2: "group (finalState (connect stdChecker 6 (beginGroup rowWorkspace) 0 2)) = Some 0 \<and>
      recordedIn (Some 0) (beginGroup rowWorkspace)
        (finalState (connect stdChecker 6 (beginGroup rowWorkspace) 0 2))"
    by simp
  from C p have 3: "group u = Some 0 \<and> ownGroup plainTemplateWorkspace u"
    by simp
  from 1 2 3 g b p show ?thesis
    unfolding c_def[symmetric] d_def[symmetric] x_def[symmetric] c d x by simp
qed

theorem group_left_open_counterexample:
  "group plainTemplateWorkspace = None \<and>
   isl (disconnect stdChecker 4 plainTemplateWorkspace 0) \<and>
   fst (projl (disconnect stdChecker 4 plainTemplateWorkspace 0)) = ChildNoOutputOrPrevious \<and>
   group (snd (projl (disconnect stdChecker 4 plainTemplateWorkspace 0))) = Some 0 \<and>
   isl (connect stdChecker 4 plainTemplateWorkspace 2 1) \<and>
   fst (projl (connect stdChecker 4 plainTemplateWorkspace 2 1)) = ChildNoOutputOrPrevious \<and>
   group (snd (projl (connect stdChecker 4 plainTemplateWorkspace 2 1))) = Some 0"
  by code_simp

section \<open>Reciprocity of links\<close>

text \<open>
  C1.  (1) When \<open>connect(a, b)\<close> performs the link (the two are not already linked, the
  checker accepts) and returns, \<open>a\<close> targets \<open>b\<close> and \<open>b\<close> targets \<open>a\<close>.  (2) When
  \<open>disconnect\<close> returns on a linked pair of distinct allocated connections, the target of
  the child side is absent; the target of the parent side is absent when no respawn
  applies (no template, no undo recording, or no workspace), and otherwise it is absent or
  is the connection of the placeholder materialized by the respawn, which targets it back.
  (3) On a well-formed store, with a checker that accepts only opposite kinds and does not
  depend on the order of its arguments, \<open>connect\<close> and \<open>disconnect\<close> on allocated
  connections return a well-formed store: whenever \<open>x\<close> targets \<open>y\<close>, \<open>y\<close> targets \<open>x\<close>.
\<close>

theorem link_reciprocity:
  "(connect chk n s a b = Inr s' \<longrightarrow> targetConnection (conns s a) \<noteq> Some b \<longrightarrow> chk s a b \<longrightarrow>
      targetConnection (conns s' a) = Some b \<and> targetConnection (conns s' b) = Some a) \<and>
   (disconnect chk m t c = Inr t' \<longrightarrow> targetConnection (conns t c) = Some d \<longrightarrow>
      c < nextConn t \<longrightarrow> d < nextConn t \<longrightarrow> c \<noteq> d \<longrightarrow>
      targetConnection (conns t' (if isSuperior t c then d else c)) = None \<and>
      (getShadowDom t (if isSuperior t c then c else d) = None \<or> \<not> recordUndo t \<or>
       \<not> workspace (blocks t (getSourceBlock t (if isSuperior t c then c else d))) \<longrightarrow>
       targetConnection (conns t' (if isSuperior t c then c else d)) = None) \<and>
      (\<forall>y. targetConnection (conns t' (if isSuperior t c then c else d)) = Some y \<longrightarrow>
           y = nextConn t \<and>
           targetConnection (conns t' y) = Some (if isSuperior t c then c else d))) \<and>
   (wfState u \<longrightarrow> checkerOK chk \<longrightarrow> e < nextConn u \<longrightarrow> f < nextConn u \<longrightarrow>
      connect chk k u e f = Inr u' \<or> disconnect chk k u e = Inr u' \<longrightarrow>
      wfState u' \<and>
      (\<forall>x y. targetConnection (conns u' x) = Some y \<longrightarrow> targetConnection (conns u' y) = Some x))"
proof (intro conjI impI)
  assume "connect chk n s a b = Inr s'" "targetConnection (conns s a) \<noteq> Some b" "chk s a b"
  then show "targetConnection (conns s' a) = Some b" "targetConnection (conns s' b) = Some a"
    using connect_links by blast+
next
  assume h: "disconnect chk m t c = Inr t'" "targetConnection (conns t c) = Some d"
    "c < nextConn t" "d < nextConn t" "c \<noteq> d"
  note dt = disconnect_targets[OF h]
  show "targetConnection (conns t' (if isSuperior t c then d else c)) = None" by (rule dt(1))
  show "targetConnection (conns t' (if isSuperior t c then c else d)) = None"
    if "getShadowDom t (if isSuperior t c then c else d) = None \<or> \<not> recordUndo t \<or>
       \<not> workspace (blocks t (getSourceBlock t (if isSuperior t c then c else d)))"
    using that by (rule dt(2))
  show "\<forall>y. targetConnection (conns t' (if isSuperior t c then c else d)) = Some y \<longrightarrow>
           y = nextConn t \<and>
           targetConnection (conns t' y) = Some (if isSuperior t c then c else d)"
    using dt(3) by blast
next
  assume h: "wfState u" "checkerOK chk" "e < nextConn u" "f < nextConn u"
    "connect chk k u e f = Inr u' \<or> disconnect chk k u e = Inr u'"
  from h(5) show w: "wfState u'"
    using connect_wf[OF h(1) h(2) h(3) h(4)] disconnect_wf[OF h(1) h(2)] by blast
  show "\<forall>x y. targetConnection (conns u' x) = Some y \<longrightarrow> targetConnection (conns u' y) = Some x"
    using wfState_reciprocal[OF w] by blast
qed

theorem link_reciprocity_witness:
  "targetConnection (conns (projr (connect stdChecker 2 twoValueBlocks 1 2)) 1) = Some 2 \<and>
   targetConnection (conns (projr (connect stdChecker 2 twoValueBlocks 1 2)) 2) = Some 1 \<and>
   wfState (projr (connect stdChecker 2 twoValueBlocks 1 2)) \<and>
   targetConnection (conns (projr (disconnect stdChecker 4 rowWorkspace 1)) 1) = None \<and>
   targetConnection (conns (projr (disconnect stdChecker 4 rowWorkspace 1)) 0) = None \<and>
   wfState (projr (disconnect stdChecker 4 rowWorkspace 1))"
proof -
  define r where "r = connect stdChecker 2 twoValueBlocks 1 2"
  define q where "q = disconnect stdChecker 4 rowWorkspace 1"
  have "\<not> isl r" unfolding r_def by code_simp
  then obtain s' where r: "r = Inr s'" by (cases r) simp_all
  have "\<not> isl q" unfolding q_def by code_simp
  then obtain t' where q: "q = Inr t'" by (cases q) simp_all
  have h1: "targetConnection (conns twoValueBlocks 1) \<noteq> Some 2" "stdChecker twoValueBlocks 1 2"
    "(1::nat) < nextConn twoValueBlocks" "(2::nat) < nextConn twoValueBlocks"
    by code_simp+
  have h2: "targetConnection (conns rowWorkspace 1) = Some 0" "(1::nat) < nextConn rowWorkspace"
    "(0::nat) < nextConn rowWorkspace" "\<not> isSuperior rowWorkspace 1"
    "getShadowDom rowWorkspace 0 = None"
    by code_simp+
  note A = link_reciprocity[where chk = stdChecker and n = 2 and s = twoValueBlocks and a = 1
      and b = 2 and s' = s' and m = 4 and t = rowWorkspace and c = 1 and d = 0
      and t' = t' and u = twoValueBlocks and e = 1 and f = 2 and k = 2 and u' = s',
      folded r_def q_def, unfolded r q]
  note B = link_reciprocity[where chk = stdChecker and n = 2 and s = twoValueBlocks and a = 1
      and b = 2 and s' = s' and m = 4 and t = rowWorkspace and c = 1 and d = 0
      and t' = t' and u = rowWorkspace and e = 1 and f = 0 and k = 4 and u' = t',
      folded r_def q_def, unfolded r q]
  from A[THEN conjunct1] h1 have 1: "targetConnection (conns s' 1) = Some 2 \<and>
      targetConnection (conns s' 2) = Some 1"
    by blast
  from A[THEN conjunct2, THEN conjunct1]
  have "targetConnection (conns rowWorkspace 1) = Some 0 \<longrightarrow>
      1 < nextConn rowWorkspace \<longrightarrow> 0 < nextConn rowWorkspace \<longrightarrow> (1::nat) \<noteq> 0 \<longrightarrow>
      targetConnection (conns t' (if isSuperior rowWorkspace 1 then 0 else 1)) = None \<and>
      (getShadowDom rowWorkspace (if isSuperior rowWorkspace 1 then 1 else 0) = None \<or>
       \<not> recordUndo rowWorkspace \<or>
       \<not> workspace (blocks rowWorkspace
           (getSourceBlock rowWorkspace (if isSuperior rowWorkspace 1 then 1 else 0))) \<longrightarrow>
       targetConnection (conns t' (if isSuperior rowWorkspace 1 then 1 else 0)) = None)"
    by blast
  with h2 have 2: "targetConnection (conns t' 1) = None \<and> targetConnection (conns t' 0) = None"
    by simp
  from A[THEN conjunct2, THEN conjunct2] h1 wf_twoValueBlocks stdChecker_ok
  have 3: "wfState s'" by blast
  from B[THEN conjunct2, THEN conjunct2] h2 wf_rowWorkspace stdChecker_ok
  have 4: "wfState t'" by blast
  from 1 2 3 4 show ?thesis
    unfolding r_def[symmetric] q_def[symmetric] r q by simp
qed

theorem disconnect_respawn_counterexample:
  "targetConnection (conns templateWorkspace 0) = Some 1 \<and>
   targetConnection (conns templateWorkspace 1) = Some 0 \<and>
   \<not> isl (disconnect stdChecker 4 templateWorkspace 0) \<and>
   targetConnection (conns (projr (disconnect stdChecker 4 templateWorkspace 0)) 0) = Some 2"
  by code_simp

section \<open>Sequences of connect operations\<close>




section \<open>Shadow respawn on disconnect\<close>

text \<open>
  C4.  \<open>disconnect\<close> is called on either side of a linked pair whose superior connection
  \<open>p\<close> carries a placeholder template \<open>d\<close>, on a block of a live workspace, with undo
  recording active.  With enough fuel for the cascade, the call unlinks the pair and
  materializes a placeholder block from the template (state \<open>t\<close>); then (1) if the
  placeholder has neither an output nor a previous connection, the call throws
  \<open>ChildNoOutputOrPrevious\<close>; (2) otherwise the placeholder's connection is handed to
  \<open>connect\<close> together with \<open>p\<close>, and the call returns: the new block is a placeholder of
  the workspace, the former child connection is free, and the placeholder is linked to
  \<open>p\<close>, with the block of \<open>p\<close> as its parent, if the checker accepts the pair; if the
  checker refuses, \<open>connect\<close> does nothing and the placeholder is left unlinked and
  parentless.
\<close>

theorem respawn_on_disconnect:
  assumes "targetConnection (conns s p) = Some k" and "targetConnection (conns s k) = Some p"
    and "isSuperior s p" and "\<not> isSuperior s k"
    and "(this = p \<and> other = k) \<or> (this = k \<and> other = p)"
    and "p < nextConn s" and "k < nextConn s" and "getSourceBlock s p < nextBlock s"
    and "getShadowDom s p = Some d" and "workspace (blocks s (getSourceBlock s p))"
    and "recordUndo s"
    and "t = fst (Xml_domToBlock (detach (beginGroup s) this other (getSourceBlock s k)) d)"
  shows "if d = DomPlain
         then disconnect chk (Suc (Suc (Suc (Suc n)))) s this = Inl (ChildNoOutputOrPrevious, t)
         else disconnect chk (Suc (Suc (Suc (Suc n)))) s this =
                (case connect chk (Suc (Suc n)) t p (nextConn s) of
                   Inl e \<Rightarrow> Inl e
                 | Inr u \<Rightarrow> Inr (endGroup s u)) \<and>
              (\<exists>s'. disconnect chk (Suc (Suc (Suc (Suc n)))) s this = Inr s' \<and>
                 nextBlock s' = Suc (nextBlock s) \<and>
                 isShadow (blocks s' (nextBlock s)) \<and> workspace (blocks s' (nextBlock s)) \<and>
                 getSourceBlock s' (nextConn s) = nextBlock s \<and>
                 targetConnection (conns s' k) = None \<and>
                 (if chk t p (nextConn s)
                  then targetConnection (conns s' p) = Some (nextConn s) \<and>
                       targetConnection (conns s' (nextConn s)) = Some p \<and>
                       parentBlock' (blocks s' (nextBlock s)) = Some (getSourceBlock s p)
                  else targetConnection (conns s' p) = None \<and>
                       targetConnection (conns s' (nextConn s)) = None \<and>
                       parentBlock' (blocks s' (nextBlock s)) = None))"
proof (cases "d = DomPlain")
  case True
  with disconnect_respawn(1)[OF assms, of chk n] show ?thesis by simp
next
  case False
  have pk: "p \<noteq> k" using assms(3,4) by auto
  define s' where "s' = endGroup s
                   (if chk t p (nextConn s)
                    then endGroup t (attach (beginGroup t) p (nextConn s) (getSourceBlock s p)
                                       (nextBlock s))
                    else t)"
  note f = respawn_fields[OF assms(6,7,8) pk assms(5) False assms(12) s'_def]
  have r: "disconnect chk (Suc (Suc (Suc (Suc n)))) s this = Inr s'"
    unfolding s'_def by (rule disconnect_respawn(3)[OF assms False])
  have "nextBlock s' = Suc (nextBlock s) \<and>
                 isShadow (blocks s' (nextBlock s)) \<and> workspace (blocks s' (nextBlock s)) \<and>
                 getSourceBlock s' (nextConn s) = nextBlock s \<and>
                 targetConnection (conns s' k) = None \<and>
                 (if chk t p (nextConn s)
                  then targetConnection (conns s' p) = Some (nextConn s) \<and>
                       targetConnection (conns s' (nextConn s)) = Some p \<and>
                       parentBlock' (blocks s' (nextBlock s)) = Some (getSourceBlock s p)
                  else targetConnection (conns s' p) = None \<and>
                       targetConnection (conns s' (nextConn s)) = None \<and>
                       parentBlock' (blocks s' (nextBlock s)) = None)"
    using f by (cases "chk t p (nextConn s)") simp_all
  with r disconnect_respawn(2)[OF assms False, of chk n] False show ?thesis by auto
qed

theorem respawn_on_disconnect_witness:
  "(\<exists>s'. disconnect stdChecker 4 templateWorkspace 1 = Inr s' \<and>
       targetConnection (conns s' 0) = Some 2 \<and> targetConnection (conns s' 2) = Some 0 \<and>
       targetConnection (conns s' 1) = None \<and>
       isShadow (blocks s' 2) \<and> parentBlock' (blocks s' 2) = Some 0) \<and>
   (\<exists>u. disconnect stdChecker 4 plainTemplateWorkspace 0 = Inl (ChildNoOutputOrPrevious, u))"
proof -
  define t where "t = fst (Xml_domToBlock
      (detach (beginGroup templateWorkspace) 1 0 (getSourceBlock templateWorkspace 1))
      (DomOutput None))"
  have h: "targetConnection (conns templateWorkspace 0) = Some 1"
    "targetConnection (conns templateWorkspace 1) = Some 0"
    "isSuperior templateWorkspace 0" "\<not> isSuperior templateWorkspace 1"
    "(0::nat) < nextConn templateWorkspace" "(1::nat) < nextConn templateWorkspace"
    "getSourceBlock templateWorkspace 0 < nextBlock templateWorkspace"
    "getShadowDom templateWorkspace 0 = Some (DomOutput None)"
    "workspace (blocks templateWorkspace (getSourceBlock templateWorkspace 0))"
    "recordUndo templateWorkspace"
    "nextConn templateWorkspace = 2" "nextBlock templateWorkspace = 2"
    "getSourceBlock templateWorkspace 0 = 0"
    by code_simp+
  have acc: "stdChecker t 0 2" unfolding t_def by code_simp
  have g: "targetConnection (conns plainTemplateWorkspace 0) = Some 1"
    "targetConnection (conns plainTemplateWorkspace 1) = Some 0"
    "isSuperior plainTemplateWorkspace 0" "\<not> isSuperior plainTemplateWorkspace 1"
    "(0::nat) < nextConn plainTemplateWorkspace" "(1::nat) < nextConn plainTemplateWorkspace"
    "getSourceBlock plainTemplateWorkspace 0 < nextBlock plainTemplateWorkspace"
    "getShadowDom plainTemplateWorkspace 0 = Some DomPlain"
    "workspace (blocks plainTemplateWorkspace (getSourceBlock plainTemplateWorkspace 0))"
    "recordUndo plainTemplateWorkspace"
    by code_simp+
  have four: "(4::nat) = Suc (Suc (Suc (Suc 0)))" by simp
  have sd: "((1::nat) = 0 \<and> (0::nat) = 1) \<or> ((1::nat) = 1 \<and> (0::nat) = 0)" by simp
  have nd: "DomOutput None \<noteq> DomPlain" by simp
  note B = respawn_on_disconnect[where s = templateWorkspace and p = 0 and k = 1 and this = 1
      and other = 0 and d = "DomOutput None" and t = t and chk = stdChecker and n = 0,
      OF h(1,2,3,4) sd h(5,6,7,8,9,10) t_def, unfolded h(11,12,13) if_not_P[OF nd]]
  from B[THEN conjunct2] obtain s' where
    s: "disconnect stdChecker (Suc (Suc (Suc (Suc 0)))) templateWorkspace 1 = Inr s'"
      "isShadow (blocks s' 2)" "targetConnection (conns s' 1) = None"
      "if stdChecker t 0 2
                  then targetConnection (conns s' 0) = Some 2 \<and>
                       targetConnection (conns s' 2) = Some 0 \<and>
                       parentBlock' (blocks s' 2) = Some 0
                  else targetConnection (conns s' 0) = None \<and>
                       targetConnection (conns s' 2) = None \<and>
                       parentBlock' (blocks s' 2) = None"
    by blast
  from s(4) acc have l: "targetConnection (conns s' 0) = Some 2"
    "targetConnection (conns s' 2) = Some 0" "parentBlock' (blocks s' 2) = Some 0"
    by simp_all
  have 1: "\<exists>s'. disconnect stdChecker 4 templateWorkspace 1 = Inr s' \<and>
       targetConnection (conns s' 0) = Some 2 \<and> targetConnection (conns s' 2) = Some 0 \<and>
       targetConnection (conns s' 1) = None \<and>
       isShadow (blocks s' 2) \<and> parentBlock' (blocks s' 2) = Some 0"
    unfolding four using s(1,2,3) l by blast
  have sd': "((0::nat) = 0 \<and> (1::nat) = 1) \<or> ((0::nat) = 1 \<and> (1::nat) = 0)" by simp
  note C = respawn_on_disconnect[where s = plainTemplateWorkspace and p = 0 and k = 1 and this = 0
      and other = 1 and d = DomPlain and chk = stdChecker and n = 0,
      OF g(1,2,3,4) sd' g(5,6,7,8,9,10) refl, unfolded if_P[OF refl]]
  have 2: "\<exists>u. disconnect stdChecker 4 plainTemplateWorkspace 0 = Inl (ChildNoOutputOrPrevious, u)"
    unfolding four using C by blast
  from 1 2 show ?thesis by blast
qed

theorem respawn_refused_counterexample:
  "targetConnection (conns mismatchWorkspace 0) = Some 1 \<and>
   targetConnection (conns mismatchWorkspace 1) = Some 0 \<and>
   getShadowDom mismatchWorkspace 0 = Some (DomOutput (Some [''String''])) \<and>
   workspace (blocks mismatchWorkspace (getSourceBlock mismatchWorkspace 0)) \<and>
   recordUndo mismatchWorkspace \<and>
   \<not> isl (disconnect stdChecker 4 mismatchWorkspace 0) \<and>
   nextBlock (projr (disconnect stdChecker 4 mismatchWorkspace 0)) = 3 \<and>
   isShadow (blocks (projr (disconnect stdChecker 4 mismatchWorkspace 0)) 2) \<and>
   workspace (blocks (projr (disconnect stdChecker 4 mismatchWorkspace 0)) 2) \<and>
   parentBlock' (blocks (projr (disconnect stdChecker 4 mismatchWorkspace 0)) 2) = None \<and>
   targetConnection (conns (projr (disconnect stdChecker 4 mismatchWorkspace 0)) 0) = None \<and>
   targetConnection (conns (projr (disconnect stdChecker 4 mismatchWorkspace 0)) 2) = None"
  by code_simp

section \<open>Disposed connections\<close>




section \<open>Compatibility tags\<close>

text \<open>
  C6.  (1) \<open>setCheck\<close> with \<open>null\<close> or with the empty string stores \<open>null\<close> and does
  nothing else: the existing link is not re-validated.  (2) With any other argument it
  stores the argument as an array, a single tag as a one-element array, and re-validates:
  a connection without target is left as it is; with a target and no connection checker
  (the block has left its workspace) the call throws; when the checker accepts the
  existing link nothing else changes; when the checker refuses it, on a well-formed store,
  the call is the disconnect of the inferior connection of the pair, so that when it
  returns the stored array is in place, the inferior connection has no target and its
  block has no parent; and it does return, with enough fuel for the cascade, unless the
  superior connection carries a template without output and previous connection.
\<close>

theorem setCheck_revalidates:
  "(\<not> truthy check \<longrightarrow>
      setCheck chk n s this check = Inr (updConn s this (\<lambda>k. k\<lparr>check' := None\<rparr>))) \<and>
   (truthy check \<longrightarrow> s0 = updConn s this (\<lambda>k. k\<lparr>check' := Some (toArray check)\<rparr>) \<longrightarrow>
      (targetConnection (conns s this) = None \<longrightarrow> setCheck chk n s this check = Inr s0) \<and>
      (targetConnection (conns s this) = Some T \<longrightarrow>
         (\<not> hasConnectionChecker s this \<longrightarrow> setCheck chk n s this check = Inl (TypeError, s0)) \<and>
         (hasConnectionChecker s this \<longrightarrow>
            (chk s0 this T \<longrightarrow> setCheck chk n s this check = Inr s0) \<and>
            (\<not> chk s0 this T \<longrightarrow> wfState s \<longrightarrow>
               ic = (if isSuperior s this then T else this) \<longrightarrow>
               pc = (if isSuperior s this then this else T) \<longrightarrow>
               setCheck chk (Suc n) s this check = disconnect chk n s0 ic \<and>
               (setCheck chk (Suc n) s this check = Inr s' \<longrightarrow>
                  check' (conns s' this) = Some (toArray check) \<and>
                  targetConnection (conns s' ic) = None \<and>
                  parentBlock' (blocks s' (getSourceBlock s ic)) = None) \<and>
               (getShadowDom s pc \<noteq> Some DomPlain \<longrightarrow>
                  (\<exists>u. setCheck chk (Suc (Suc (Suc (Suc (Suc n))))) s this check = Inr u))))))"
proof (intro conjI impI)
  assume "\<not> truthy check"
  then show "setCheck chk n s this check = Inr (updConn s this (\<lambda>k. k\<lparr>check' := None\<rparr>))"
    by (simp add: setCheck_def)
next
  assume h: "truthy check" "s0 = updConn s this (\<lambda>k. k\<lparr>check' := Some (toArray check)\<rparr>)"
    "targetConnection (conns s this) = None"
  show "setCheck chk n s this check = Inr s0"
    by (rule setCheck_compatible(1)[OF h])
next
  assume h: "truthy check" "s0 = updConn s this (\<lambda>k. k\<lparr>check' := Some (toArray check)\<rparr>)"
    "targetConnection (conns s this) = Some T" "\<not> hasConnectionChecker s this"
  show "setCheck chk n s this check = Inl (TypeError, s0)"
    by (rule setCheck_compatible(2)[OF h])
next
  assume h: "truthy check" "s0 = updConn s this (\<lambda>k. k\<lparr>check' := Some (toArray check)\<rparr>)"
    "targetConnection (conns s this) = Some T" "hasConnectionChecker s this" "chk s0 this T"
  show "setCheck chk n s this check = Inr s0"
    by (rule setCheck_compatible(3)[where chk = chk, OF h])
next
  assume h: "truthy check" "s0 = updConn s this (\<lambda>k. k\<lparr>check' := Some (toArray check)\<rparr>)"
    "targetConnection (conns s this) = Some T" "hasConnectionChecker s this"
    "\<not> chk s0 this T" "wfState s" "ic = (if isSuperior s this then T else this)"
    "pc = (if isSuperior s this then this else T)"
  note u = setCheck_unplugs[where chk = chk, OF h(6) h(1) h(3) h(4) h(2) h(5) h(7) h(8)]
  show "setCheck chk (Suc n) s this check = disconnect chk n s0 ic" by (rule u(1))
  show "check' (conns s' this) = Some (toArray check)" "targetConnection (conns s' ic) = None"
    "parentBlock' (blocks s' (getSourceBlock s ic)) = None"
    if "setCheck chk (Suc n) s this check = Inr s'"
    using u(2)[OF that] by simp_all
  show "\<exists>u. setCheck chk (Suc (Suc (Suc (Suc (Suc n))))) s this check = Inr u"
    if "getShadowDom s pc \<noteq> Some DomPlain"
    using that by (rule u(3))
qed

theorem setCheck_revalidates_witness:
  "\<not> stdChecker (updConn taggedWorkspace 0 (\<lambda>k. k\<lparr>check' := Some [''String'']\<rparr>)) 0 1 \<and>
   (\<exists>u. setCheck stdChecker 5 taggedWorkspace 0 (CheckString ''String'') = Inr u \<and>
        check' (conns u 0) = Some [''String''] \<and> targetConnection (conns u 1) = None \<and>
        parentBlock' (blocks u 1) = None) \<and>
   setCheck stdChecker 5 taggedWorkspace 0 CheckNull =
     Inr (updConn taggedWorkspace 0 (\<lambda>k. k\<lparr>check' := None\<rparr>)) \<and>
   setCheck stdChecker 5 taggedWorkspace 0 (CheckString ''Number'') =
     Inr (updConn taggedWorkspace 0 (\<lambda>k. k\<lparr>check' := Some [''Number'']\<rparr>))"
proof -
  define s0 where "s0 = updConn taggedWorkspace 0 (\<lambda>k. k\<lparr>check' := Some (toArray (CheckString ''String''))\<rparr>)"
  define s1 where "s1 = updConn taggedWorkspace 0 (\<lambda>k. k\<lparr>check' := Some (toArray (CheckString ''Number''))\<rparr>)"
  have five: "(5::nat) = Suc (Suc (Suc (Suc (Suc 0))))" by simp
  have h: "truthy (CheckString ''String'')" "targetConnection (conns taggedWorkspace 0) = Some 1"
    "hasConnectionChecker taggedWorkspace 0" "isSuperior taggedWorkspace 0"
    "getShadowDom taggedWorkspace 0 \<noteq> Some DomPlain" "getSourceBlock taggedWorkspace 1 = 1"
    "truthy (CheckString ''Number'')" "\<not> truthy CheckNull"
    by code_simp+
  have ref: "\<not> stdChecker s0 0 1" unfolding s0_def by code_simp
  have acc: "stdChecker s1 0 1" unfolding s1_def by code_simp
  note A = setCheck_revalidates[where check = "CheckString ''String''" and chk = stdChecker
      and n = "Suc (Suc (Suc (Suc 0)))" and s = taggedWorkspace and this = 0 and s0 = s0 and T = 1
      and ic = 1 and pc = 0, THEN conjunct2, rule_format, OF h(1) s0_def, THEN conjunct2,
      rule_format, OF h(2), THEN conjunct2, rule_format, OF h(3), THEN conjunct2, rule_format,
      OF ref wf_taggedWorkspace]
  have i: "(1::nat) = (if isSuperior taggedWorkspace 0 then 1 else 0)"
    "(0::nat) = (if isSuperior taggedWorkspace 0 then 0 else 1)"
    using h(4) by simp_all
  note A' = A[OF i]
  note C = setCheck_revalidates[where check = "CheckString ''String''" and chk = stdChecker
      and n = 0 and s = taggedWorkspace and this = 0 and s0 = s0 and T = 1
      and ic = 1 and pc = 0, THEN conjunct2, rule_format, OF h(1) s0_def, THEN conjunct2,
      rule_format, OF h(2), THEN conjunct2, rule_format, OF h(3), THEN conjunct2, rule_format,
      OF ref wf_taggedWorkspace i]
  have "\<exists>u. setCheck stdChecker (Suc (Suc (Suc (Suc (Suc 0))))) taggedWorkspace 0
          (CheckString ''String'') = Inr u"
    using C[THEN conjunct2, THEN conjunct2] h(5) by blast
  then obtain u where u: "setCheck stdChecker (Suc (Suc (Suc (Suc (Suc 0))))) taggedWorkspace 0
          (CheckString ''String'') = Inr u" ..
  have "check' (conns u 0) = Some (toArray (CheckString ''String'')) \<and>
        targetConnection (conns u 1) = None \<and>
        parentBlock' (blocks u (getSourceBlock taggedWorkspace 1)) = None"
    by (rule A'[where s' = u, THEN conjunct2, THEN conjunct1, rule_format, OF u])
  with u h(6) have 1: "\<exists>u. setCheck stdChecker 5 taggedWorkspace 0 (CheckString ''String'') = Inr u \<and>
        check' (conns u 0) = Some [''String''] \<and> targetConnection (conns u 1) = None \<and>
        parentBlock' (blocks u 1) = None"
    unfolding five by auto
  have 2: "setCheck stdChecker 5 taggedWorkspace 0 CheckNull =
     Inr (updConn taggedWorkspace 0 (\<lambda>k. k\<lparr>check' := None\<rparr>))"
    by (rule setCheck_revalidates[where check = CheckNull and chk = stdChecker and n = 5
        and s = taggedWorkspace and this = 0, THEN conjunct1, rule_format, OF h(8)])
  have 3: "setCheck stdChecker 5 taggedWorkspace 0 (CheckString ''Number'') = Inr s1"
    by (rule setCheck_revalidates[where check = "CheckString ''Number''" and chk = stdChecker
        and n = 5 and s = taggedWorkspace and this = 0 and s0 = s1 and T = 1,
        THEN conjunct2, rule_format, OF h(7) s1_def, THEN conjunct2, rule_format, OF h(2),
        THEN conjunct2, rule_format, OF h(3), THEN conjunct1, rule_format, OF acc])
  from ref 1 2 3 show ?thesis unfolding s0_def s1_def by simp
qed

theorem setCheck_empty_tag_counterexample:
  "targetConnection (conns taggedWorkspace 0) = Some 1 \<and>
   \<not> stdChecker (updConn taggedWorkspace 0 (\<lambda>k. k\<lparr>check' := Some [[]]\<rparr>)) 0 1 \<and>
   \<not> isl (setCheck stdChecker 5 taggedWorkspace 0 (CheckString [])) \<and>
   check' (conns (projr (setCheck stdChecker 5 taggedWorkspace 0 (CheckString []))) 0) = None \<and>
   targetConnection (conns (projr (setCheck stdChecker 5 taggedWorkspace 0 (CheckString []))) 0) =
     Some 1"
  by code_simp

section \<open>Displaced placeholders\<close>



end
